theory Spec2Isabelle
  imports Complex_Main "HOL-Library.Multiset"
begin

section \<open>JavaScript strings\<close>

text \<open>
  Strings are lists of 8-bit characters (the Latin-1 range of JavaScript's UTF-16 code
  units). The functions below are the \<open>String.prototype\<close> methods the extraction code
  calls, restricted to that range.
\<close>

definition isDigit :: "char \<Rightarrow> bool" where
  "isDigit c = (c \<in> set ''0123456789'')"

definition isLower :: "char \<Rightarrow> bool" where
  "isLower c = (c \<in> set ''abcdefghijklmnopqrstuvwxyz'')"

definition isUpper :: "char \<Rightarrow> bool" where
  "isUpper c = (c \<in> set ''ABCDEFGHIJKLMNOPQRSTUVWXYZ'')"

definition isWordChar :: "char \<Rightarrow> bool" where
  \<comment> \<open>the class \<open>\w\<close> that decides \<open>\b\<close>\<close>
  "isWordChar c = (isDigit c \<or> isLower c \<or> isUpper c \<or> c = CHR ''_'')"

definition isSpace :: "char \<Rightarrow> bool" where
  \<comment> \<open>\<open>\s\<close> and the characters \<open>trim\<close> strips: TAB, LF, VT, FF, CR, SP, NBSP\<close>
  "isSpace c = (c \<in> set [CHR 0x09, CHR 0x0A, CHR 0x0B, CHR 0x0C, CHR 0x0D, CHR 0x20, CHR 0xA0])"

definition trim :: "string \<Rightarrow> string" where
  "trim s = rev (dropWhile isSpace (rev (dropWhile isSpace s)))"

fun startsWith :: "string \<Rightarrow> string \<Rightarrow> bool" where
  "startsWith s [] = True"
| "startsWith [] (p # ps) = False"
| "startsWith (c # cs) (p # ps) = (c = p \<and> startsWith cs ps)"

fun includesStr :: "string \<Rightarrow> string \<Rightarrow> bool" where
  "includesStr [] p = (p = [])"
| "includesStr (c # cs) p = (startsWith (c # cs) p \<or> includesStr cs p)"

fun replaceFirst :: "string \<Rightarrow> string \<Rightarrow> string \<Rightarrow> string" where
  \<comment> \<open>\<open>s.replace(p, r)\<close> with a string pattern: only the first occurrence is replaced\<close>
  "replaceFirst [] p r = (if p = [] then r else [])"
| "replaceFirst (c # cs) p r =
     (if startsWith (c # cs) p then r @ drop (length p) (c # cs)
      else c # replaceFirst cs p r)"

fun splitOn :: "char \<Rightarrow> string \<Rightarrow> string list" where
  \<comment> \<open>\<open>s.split(sep)\<close> for a one-character separator; the empty string gives one empty piece\<close>
  "splitOn sep [] = [[]]"
| "splitOn sep (c # cs) =
     (case splitOn sep cs of
        [] \<Rightarrow> (if c = sep then [[], []] else [[c]])
      | w # ws \<Rightarrow> (if c = sep then [] # w # ws else (c # w) # ws))"

definition upperChars :: string where
  \<comment> \<open>A-Z and the Latin-1 capitals 0xC0..0xDE (without the multiplication sign 0xD7)\<close>
  "upperChars = ''ABCDEFGHIJKLMNOPQRSTUVWXYZ'' @
     [CHR 0xC0, CHR 0xC1, CHR 0xC2, CHR 0xC3, CHR 0xC4, CHR 0xC5, CHR 0xC6, CHR 0xC7,
      CHR 0xC8, CHR 0xC9, CHR 0xCA, CHR 0xCB, CHR 0xCC, CHR 0xCD, CHR 0xCE, CHR 0xCF,
      CHR 0xD0, CHR 0xD1, CHR 0xD2, CHR 0xD3, CHR 0xD4, CHR 0xD5, CHR 0xD6, CHR 0xD8,
      CHR 0xD9, CHR 0xDA, CHR 0xDB, CHR 0xDC, CHR 0xDD, CHR 0xDE]"

definition lowerChars :: string where
  \<comment> \<open>their lower-case forms, 32 code units higher\<close>
  "lowerChars = ''abcdefghijklmnopqrstuvwxyz'' @
     [CHR 0xE0, CHR 0xE1, CHR 0xE2, CHR 0xE3, CHR 0xE4, CHR 0xE5, CHR 0xE6, CHR 0xE7,
      CHR 0xE8, CHR 0xE9, CHR 0xEA, CHR 0xEB, CHR 0xEC, CHR 0xED, CHR 0xEE, CHR 0xEF,
      CHR 0xF0, CHR 0xF1, CHR 0xF2, CHR 0xF3, CHR 0xF4, CHR 0xF5, CHR 0xF6, CHR 0xF8,
      CHR 0xF9, CHR 0xFA, CHR 0xFB, CHR 0xFC, CHR 0xFD, CHR 0xFE]"

definition toLowerChar :: "char \<Rightarrow> char" where
  "toLowerChar c = (case map_of (zip upperChars lowerChars) c of None \<Rightarrow> c | Some l \<Rightarrow> l)"

definition toLowerCase :: "string \<Rightarrow> string" where
  "toLowerCase s = map toLowerChar s"

definition padStart2 :: "string \<Rightarrow> string" where
  \<comment> \<open>\<open>s.padStart(2, "0")\<close>\<close>
  "padStart2 s = replicate (2 - length s) CHR ''0'' @ s"

section \<open>Regular expressions\<close>

text \<open>
  A backtracking matcher with JavaScript's priorities: alternatives left to right,
  quantifiers greedy, an iteration of \<open>*\<close> that consumes nothing is rejected.
  A matcher state is the character before the current position (for \<open>\b\<close> and \<open>^\<close>),
  the rest of the input, and the captured groups in the order they closed (the patterns
  of this program have no nested and no optional groups, so this is their numbering).
\<close>

datatype regex =
    Chr "char \<Rightarrow> bool"
  | Seq regex regex
  | Alt regex regex
  | Opt regex
  | Star regex
  | Grp regex
  | Eps
  | WordB
  | Bos
  | Eos

type_synonym mstate = "char option \<times> string \<times> string list"

definition rest :: "mstate \<Rightarrow> string" where
  "rest st = fst (snd st)"

definition isWordOpt :: "char option \<Rightarrow> bool" where
  "isWordOpt p = (case p of None \<Rightarrow> False | Some c \<Rightarrow> isWordChar c)"

definition nextChar :: "string \<Rightarrow> char option" where
  "nextChar s = (case s of [] \<Rightarrow> None | c # _ \<Rightarrow> Some c)"

function ends :: "regex \<Rightarrow> mstate \<Rightarrow> mstate list" where
  "ends (Chr P) st =
     (case rest st of
        [] \<Rightarrow> []
      | c # cs \<Rightarrow> if P c then [(Some c, cs, snd (snd st))] else [])"
| "ends (Seq a b) st = concat (map (ends b) (ends a st))"
| "ends (Alt a b) st = ends a st @ ends b st"
| "ends (Opt a) st = ends a st @ [st]"
| "ends (Star a) st =
     concat (map (\<lambda>st'. if length (rest st') < length (rest st) then ends (Star a) st' else [])
                 (ends a st)) @ [st]"
| "ends (Grp a) st =
     map (\<lambda>st'. (fst st', rest st',
                 snd (snd st') @ [take (length (rest st) - length (rest st')) (rest st)]))
         (ends a st)"
| "ends Eps st = [st]"
| "ends WordB st = (if isWordOpt (fst st) \<noteq> isWordOpt (nextChar (rest st)) then [st] else [])"
| "ends Bos st = (if fst st = None then [st] else [])"
| "ends Eos st = (if rest st = [] then [st] else [])"
  by pat_completeness auto
termination
  by (relation "inv_image (less_than <*lex*> less_than) (\<lambda>(r, st). (size r, length (rest st)))")
     auto

declare ends.simps(5) [simp del]

fun seqs :: "regex list \<Rightarrow> regex" where
  "seqs [] = Eps"
| "seqs [r] = r"
| "seqs (r # rs) = Seq r (seqs rs)"

fun alts :: "regex list \<Rightarrow> regex" where
  "alts [] = Chr (\<lambda>_. False)"
| "alts [r] = r"
| "alts (r # rs) = Alt r (alts rs)"

definition oneOrMore :: "regex \<Rightarrow> regex" where
  \<comment> \<open>\<open>r+\<close>\<close>
  "oneOrMore r = Seq r (Star r)"

fun rep :: "nat \<Rightarrow> nat \<Rightarrow> regex \<Rightarrow> regex" where
  \<comment> \<open>\<open>r{m,n}\<close>: m copies, then up to n - m more, greedily\<close>
  "rep 0 0 r = Eps"
| "rep 0 (Suc n) r = Opt (Seq r (rep 0 n r))"
| "rep (Suc m) 0 r = Chr (\<lambda>_. False)"
| "rep (Suc m) (Suc n) r = Seq r (rep m n r)"

definition lit :: "char \<Rightarrow> regex" where
  "lit c = Chr (\<lambda>x. x = c)"

definition liti :: "char \<Rightarrow> regex" where
  \<comment> \<open>a letter under the \<open>i\<close> flag\<close>
  "liti c = Chr (\<lambda>x. toLowerChar x = toLowerChar c)"

definition wordCI :: "string \<Rightarrow> regex" where
  "wordCI s = seqs (map liti s)"

definition oneOf :: "string \<Rightarrow> regex" where
  "oneOf cs = Chr (\<lambda>x. x \<in> set cs)"

definition matchHere :: "regex \<Rightarrow> char option \<Rightarrow> string \<Rightarrow> (string \<times> string list) option" where
  \<comment> \<open>the match that starts at this position, if any: its text and its groups\<close>
  "matchHere r p s =
     (case ends r (p, s, []) of
        [] \<Rightarrow> None
      | st # _ \<Rightarrow> Some (take (length s - length (rest st)) s, snd (snd st)))"

fun search :: "regex \<Rightarrow> char option \<Rightarrow> string \<Rightarrow> (string \<times> string list) option" where
  \<comment> \<open>\<open>s.match(r)\<close> without the \<open>g\<close> flag: the leftmost match\<close>
  "search r p [] = matchHere r p []"
| "search r p (c # cs) =
     (case matchHere r p (c # cs) of
        Some m \<Rightarrow> Some m
      | None \<Rightarrow> search r (Some c) cs)"

definition regexTest :: "regex \<Rightarrow> string \<Rightarrow> bool" where
  \<comment> \<open>\<open>r.test(s)\<close> for a pattern without the \<open>g\<close> flag\<close>
  "regexTest r s = (search r None s \<noteq> None)"

fun matchAllFrom :: "regex \<Rightarrow> nat \<Rightarrow> char option \<Rightarrow> string \<Rightarrow> string list" where
  \<comment> \<open>the texts of all matches, left to right; \<open>k\<close> characters of the last match are still to skip\<close>
  "matchAllFrom r k p [] =
     (if k = 0 then (case matchHere r p [] of None \<Rightarrow> [] | Some m \<Rightarrow> [fst m]) else [])"
| "matchAllFrom r k p (c # cs) =
     (if 0 < k then matchAllFrom r (k - 1) (Some c) cs
      else (case matchHere r p (c # cs) of
              None \<Rightarrow> matchAllFrom r 0 (Some c) cs
            | Some m \<Rightarrow> fst m # matchAllFrom r (length (fst m) - 1) (Some c) cs))"

definition matchAll :: "regex \<Rightarrow> string \<Rightarrow> string list" where
  \<comment> \<open>\<open>[...s.matchAll(r)].map(m => m[0])\<close> for a pattern with the \<open>g\<close> flag\<close>
  "matchAll r s = matchAllFrom r 0 None s"

section \<open>The patterns of the line parser\<close>

definition digit :: regex where
  "digit = Chr isDigit"

definition dateSep :: regex where
  \<comment> \<open>\<open>[/\-.]\<close>\<close>
  "dateSep = oneOf ''/-.''"

definition monthName :: regex where
  "monthName = alts (map wordCI [''Jan'', ''Feb'', ''Mar'', ''Apr'', ''May'', ''Jun'',
                               ''Jul'', ''Aug'', ''Sep'', ''Oct'', ''Nov'', ''Dec''])"

definition datePattern :: regex where
  \<comment> \<open>\<open>/\b(?:\d{1,2}[/\-.]\d{1,2}[/\-.]\d{2,4}|\d{1,2}\s+(?:Jan|...|Dec)[a-z]*\.?\s+\d{2,4})\b/i\<close>\<close>
  "datePattern =
     seqs [WordB,
           Alt (seqs [rep 1 2 digit, dateSep, rep 1 2 digit, dateSep, rep 2 4 digit])
               (seqs [rep 1 2 digit, oneOrMore (Chr isSpace), monthName,
                      Star (Chr (\<lambda>c. isLower c \<or> isUpper c)), Opt (lit CHR ''.''),
                      oneOrMore (Chr isSpace), rep 2 4 digit]),
           WordB]"

definition amountPattern :: regex where
  \<comment> \<open>\<open>/\$?\s*-?[\d,]+\.\d{2}/\<close>; \<open>extractTransactionFromLine\<close> wraps it in a group\<close>
  "amountPattern =
     seqs [Opt (lit CHR ''$''), Star (Chr isSpace), Opt (lit CHR ''-''),
           oneOrMore (Chr (\<lambda>c. isDigit c \<or> c = CHR '','')), lit CHR ''.'', rep 2 2 digit]"

section \<open>Transaction records\<close>

text \<open>
  The objects the line parser builds have the keys \<open>Date\<close>, \<open>Balance\<close>, \<open>Debit\<close>,
  \<open>Credit\<close>, \<open>Description\<close> and \<open>Page\<close>; the post-processor also reads \<open>Amount\<close>.
  A key that was never assigned is \<open>None\<close>.
\<close>

record txn =
  Date :: "string option"
  Amount :: "string option"
  Debit :: "string option"
  Credit :: "string option"
  Balance :: "string option"
  Description :: "string option"
  Page :: "nat option"

definition emptyTxn :: txn where
  "emptyTxn = \<lparr>Date = None, Amount = None, Debit = None, Credit = None,
               Balance = None, Description = None, Page = None\<rparr>"

definition numKeys :: "txn \<Rightarrow> nat" where
  \<comment> \<open>\<open>Object.keys(transaction).length\<close>\<close>
  "numKeys t =
     length (filter (\<lambda>f. f t \<noteq> None) [Date, Amount, Debit, Credit, Balance, Description])
     + (if Page t = None then 0 else 1)"

section \<open>Pattern matcher: one line to fields\<close>

definition classifyAmount :: "string \<Rightarrow> string \<Rightarrow> txn \<Rightarrow> txn" where
  \<comment> \<open>the second-to-last amount: debit by sign or by the word, else credit\<close>
  "classifyAmount line amount t =
     (if includesStr amount ''-'' \<or> includesStr (toLowerCase line) ''debit''
      then t\<lparr>Debit := Some (replaceFirst amount ''-'' [])\<rparr>
      else t\<lparr>Credit := Some amount\<rparr>)"

definition extractAmounts :: "string \<Rightarrow> txn \<Rightarrow> txn \<times> string" where
  "extractAmounts line t =
     (let amountMatches = matchAll (Grp amountPattern) line;
          n = length amountMatches
      in if 1 \<le> n
         then let t1 = t\<lparr>Balance := Some (trim (amountMatches ! (n - 1)))\<rparr>;
                  t2 = (if 2 \<le> n then classifyAmount line (trim (amountMatches ! (n - 2))) t1
                        else t1)
              in (t2, foldl (\<lambda>l m. replaceFirst l m []) line amountMatches)
         else (t, line))"

definition extractDate :: "string \<Rightarrow> txn \<times> string" where
  \<comment> \<open>the first date match becomes \<open>Date\<close> and its text is removed from the line\<close>
  "extractDate line =
     (case search datePattern None line of
        Some dateMatch \<Rightarrow>
          (emptyTxn\<lparr>Date := Some (fst dateMatch)\<rparr>, replaceFirst line (fst dateMatch) [])
      | None \<Rightarrow> (emptyTxn, line))"

definition extractTransactionFromLine :: "string \<Rightarrow> txn" where
  "extractTransactionFromLine line =
     (let (t0, line0) = extractDate line;
          (t1, line1) = extractAmounts line0 t0
      in t1\<lparr>Description := Some (trim line1)\<rparr>)"

section \<open>Line parser: one page of text to records\<close>

text \<open>
  \<open>extractTableDataFromText\<close> runs its whole body inside one \<open>try\<close> whose handler
  returns the empty array. The loop is written here over a line step that may raise,
  so that the handler is a branch of the model; the program's own step,
  \<open>extractTransactionFromLine\<close>, is total on strings.
\<close>

datatype exn = Exn

definition pageLines :: "string \<Rightarrow> string list" where
  \<comment> \<open>\<open>text.split("\n").map(line => line.trim()).filter(line => line.length > 0)\<close>\<close>
  "pageLines text = filter (\<lambda>l. 0 < length l) (map trim (splitOn CHR 0x0A text))"

definition isCandidate :: "string \<Rightarrow> bool" where
  \<comment> \<open>not skipped as a page break or blank line, and both patterns match\<close>
  "isCandidate line =
     (\<not> (includesStr line ''PAGE BREAK'' \<or> length (trim line) = 0)
      \<and> regexTest datePattern line \<and> regexTest amountPattern line)"

fun linesLoop :: "(string \<Rightarrow> exn + txn) \<Rightarrow> nat \<Rightarrow> string list \<Rightarrow> txn list \<Rightarrow> exn + txn list" where
  "linesLoop ext pageNum [] transactions = Inr transactions"
| "linesLoop ext pageNum (line # ls) transactions =
     (if isCandidate line
      then (case ext line of
              Inl e \<Rightarrow> Inl e
            | Inr transaction \<Rightarrow>
                if 0 < numKeys transaction
                then linesLoop ext pageNum ls (transactions @ [transaction\<lparr>Page := Some pageNum\<rparr>])
                else linesLoop ext pageNum ls transactions)
      else linesLoop ext pageNum ls transactions)"

definition extractTableDataFromText_with ::
  "(string \<Rightarrow> exn + txn) \<Rightarrow> string \<Rightarrow> nat \<Rightarrow> txn list" where
  "extractTableDataFromText_with ext text pageNum =
     (case linesLoop ext pageNum (pageLines text) [] of
        Inl e \<Rightarrow> []
      | Inr transactions \<Rightarrow> transactions)"

definition extractTableDataFromText :: "string \<Rightarrow> nat \<Rightarrow> txn list" where
  "extractTableDataFromText text pageNum =
     extractTableDataFromText_with (\<lambda>line. Inr (extractTransactionFromLine line)) text pageNum"

definition extractTableDataFromOcrText :: "string \<Rightarrow> nat \<Rightarrow> txn list" where
  "extractTableDataFromOcrText text pageNum = extractTableDataFromText text pageNum"

section \<open>Post-processor: deduplication\<close>

text \<open>A JavaScript \<open>Map\<close>: its entries in insertion order.\<close>

type_synonym ('k, 'v) jsmap = "('k \<times> 'v) list"

definition mapHas :: "('k, 'v) jsmap \<Rightarrow> 'k \<Rightarrow> bool" where
  "mapHas m k = (k \<in> set (map fst m))"

definition mapSet :: "('k, 'v) jsmap \<Rightarrow> 'k \<Rightarrow> 'v \<Rightarrow> ('k, 'v) jsmap" where
  \<comment> \<open>a new key goes to the end; an old key keeps its place\<close>
  "mapSet m k v =
     (if mapHas m k then map (\<lambda>e. if fst e = k then (k, v) else e) m else m @ [(k, v)])"

definition mapValues :: "('k, 'v) jsmap \<Rightarrow> 'v list" where
  "mapValues m = map snd m"

definition truthy :: "string option \<Rightarrow> bool" where
  \<comment> \<open>a field that is present and not the empty string\<close>
  "truthy f = (case f of None \<Rightarrow> False | Some s \<Rightarrow> s \<noteq> [])"

definition orEmpty :: "string option \<Rightarrow> string" where
  \<comment> \<open>\<open>f || ""\<close>\<close>
  "orEmpty f = (case f of None \<Rightarrow> [] | Some s \<Rightarrow> s)"

definition amountStr :: "txn \<Rightarrow> string" where
  \<comment> \<open>\<open>transaction.Amount || transaction.Debit || transaction.Credit || ""\<close>\<close>
  "amountStr t =
     (if truthy (Amount t) then orEmpty (Amount t)
      else if truthy (Debit t) then orEmpty (Debit t)
      else orEmpty (Credit t))"

definition descStart :: "txn \<Rightarrow> string" where
  \<comment> \<open>\<open>transaction.Description ? transaction.Description.substring(0, 10) : ""\<close>\<close>
  "descStart t = take 10 (orEmpty (Description t))"

definition dedupKey :: "txn \<Rightarrow> string" where
  "dedupKey t = orEmpty (Date t) @ ''-'' @ amountStr t @ ''-'' @ descStart t"

definition dedupStep :: "(string, txn) jsmap \<Rightarrow> txn \<Rightarrow> (string, txn) jsmap" where
  "dedupStep uniqueMap transaction =
     (let key = dedupKey transaction
      in if \<not> mapHas uniqueMap key then mapSet uniqueMap key transaction else uniqueMap)"

definition removeDuplicateTransactions :: "txn list \<Rightarrow> txn list" where
  "removeDuplicateTransactions transactions = mapValues (foldl dedupStep [] transactions)"

section \<open>Post-processor: sorting by date\<close>

text \<open>
  \<open>new Date(s).getTime()\<close> belongs to the JavaScript engine, and what it accepts beyond
  the ISO forms is engine-specific. The parser takes it as the parameter \<open>D\<close>: the time
  value in milliseconds, or \<open>None\<close> for an invalid date. \<open>isoDate\<close> is the date-only
  ISO form \<open>YYYY-MM-DD\<close> (midnight UTC), for concrete examples.
\<close>

type_synonym dateCtor = "string \<Rightarrow> int option"

definition digitsToNat :: "string \<Rightarrow> nat" where
  "digitsToNat s = foldl (\<lambda>n c. 10 * n + (of_char c - 48)) 0 s"

definition daysFromCivil :: "int \<Rightarrow> int \<Rightarrow> int \<Rightarrow> int" where
  "daysFromCivil y m d =
     (let y' = (if m \<le> 2 then y - 1 else y);
          era = y' div 400;
          yoe = y' - era * 400;
          doy = (153 * (if 2 < m then m - 3 else m + 9) + 2) div 5 + d - 1;
          doe = yoe * 365 + yoe div 4 - yoe div 100 + doy
      in era * 146097 + doe - 719468)"

definition daysInMonth :: "int \<Rightarrow> int \<Rightarrow> int" where
  "daysInMonth y m =
     (if m = 2 then (if y mod 4 = 0 \<and> (y mod 100 \<noteq> 0 \<or> y mod 400 = 0) then 29 else 28)
      else if m \<in> {4, 6, 9, 11} then 30 else 31)"

definition isoPattern :: regex where
  "isoPattern = seqs [Bos, Grp (rep 4 4 digit), lit CHR ''-'', Grp (rep 2 2 digit),
                      lit CHR ''-'', Grp (rep 2 2 digit), Eos]"

definition isoDate :: dateCtor where
  "isoDate s =
     (case search isoPattern None s of
        Some (_, [ys, ms, ds]) \<Rightarrow>
          (let y = int (digitsToNat ys); m = int (digitsToNat ms); d = int (digitsToNat ds)
           in if 1 \<le> m \<and> m \<le> 12 \<and> 1 \<le> d \<and> d \<le> daysInMonth y m
              then Some (daysFromCivil y m d * 86400000) else None)
      | _ \<Rightarrow> None)"

definition dmyPattern :: regex where
  \<comment> \<open>\<open>/^(\d{1,2})[/.-](\d{1,2})[/.-](\d{4})$/\<close>, the pattern of the first two formats\<close>
  "dmyPattern = seqs [Bos, Grp (rep 1 2 digit), oneOf ''/.-'', Grp (rep 1 2 digit),
                      oneOf ''/.-'', Grp (rep 4 4 digit), Eos]"

definition ymdPattern :: regex where
  \<comment> \<open>\<open>/^(\d{4})[/.-](\d{1,2})[/.-](\d{1,2})$/\<close>\<close>
  "ymdPattern = seqs [Bos, Grp (rep 4 4 digit), oneOf ''/.-'', Grp (rep 1 2 digit),
                      oneOf ''/.-'', Grp (rep 1 2 digit), Eos]"

definition isoString :: "string \<Rightarrow> string \<Rightarrow> string \<Rightarrow> string" where
  "isoString y m d = y @ ''-'' @ padStart2 m @ ''-'' @ padStart2 d"

definition formats :: "(regex \<times> (string list \<Rightarrow> string)) list" where
  \<comment> \<open>DD/MM/YYYY, MM/DD/YYYY, YYYY/MM/DD: each builds the ISO string from its groups\<close>
  "formats =
     [(dmyPattern, \<lambda>g. isoString (g ! 2) (g ! 1) (g ! 0)),
      (dmyPattern, \<lambda>g. isoString (g ! 2) (g ! 0) (g ! 1)),
      (ymdPattern, \<lambda>g. isoString (g ! 0) (g ! 1) (g ! 2))]"

fun tryFormats :: "dateCtor \<Rightarrow> (regex \<times> (string list \<Rightarrow> string)) list \<Rightarrow> string \<Rightarrow> int option" where
  "tryFormats D [] dateStr = D dateStr"
| "tryFormats D (f # fs) dateStr =
     (case search (fst f) None dateStr of
        Some m \<Rightarrow>
          (case D (snd f (snd m)) of
             Some date \<Rightarrow> Some date
           | None \<Rightarrow> tryFormats D fs dateStr)
      | None \<Rightarrow> tryFormats D fs dateStr)"

definition parseDate :: "dateCtor \<Rightarrow> string \<Rightarrow> int option" where
  "parseDate D dateStr = (if dateStr = [] then None else tryFormats D formats dateStr)"

definition compareByDate :: "dateCtor \<Rightarrow> txn \<Rightarrow> txn \<Rightarrow> int" where
  \<comment> \<open>the comparator of \<open>sortTransactionsByDate\<close>\<close>
  "compareByDate D a b =
     (if \<not> truthy (Date a) \<or> \<not> truthy (Date b) then 0
      else (case (parseDate D (orEmpty (Date a)), parseDate D (orEmpty (Date b))) of
              (Some dateA, Some dateB) \<Rightarrow> dateA - dateB
            | _ \<Rightarrow> 0))"

text \<open>
  \<open>Array.prototype.sort\<close> is stable. For a comparator that is a consistent order on the
  elements, the standard fixes the result: the sorted permutation in which elements that
  compare equal keep their order. It is modelled as the stable insertion sort, which
  computes that permutation: an element moves past exactly the elements the comparator
  puts strictly before it. For a comparator that is not a consistent order the standard
  leaves the result to the engine, and an engine need not agree with the insertion sort.
\<close>

fun insertBy :: "('a \<Rightarrow> 'a \<Rightarrow> int) \<Rightarrow> 'a \<Rightarrow> 'a list \<Rightarrow> 'a list" where
  "insertBy cmp x [] = [x]"
| "insertBy cmp x (y # ys) = (if cmp x y \<le> 0 then x # y # ys else y # insertBy cmp x ys)"

fun sortBy :: "('a \<Rightarrow> 'a \<Rightarrow> int) \<Rightarrow> 'a list \<Rightarrow> 'a list" where
  "sortBy cmp [] = []"
| "sortBy cmp (x # xs) = insertBy cmp x (sortBy cmp xs)"

definition sortTransactionsByDate :: "dateCtor \<Rightarrow> txn list \<Rightarrow> txn list" where
  "sortTransactionsByDate D transactions = sortBy (compareByDate D) transactions"

definition postProcess :: "dateCtor \<Rightarrow> txn list \<Rightarrow> txn list" where
  \<comment> \<open>the last steps of \<open>processTextBasedPdf\<close>: deduplicate, then sort\<close>
  "postProcess D allPagesData = sortTransactionsByDate D (removeDuplicateTransactions allPagesData)"

section \<open>Extraction backends as event traces\<close>

text \<open>
  The backends are \<open>async\<close> functions. A run is modelled by the sequence of things it
  does that the outside can see: the calls of \<open>throttledProgressUpdate\<close> (the percentage;
  the status text is left out, and whether the call reaches \<open>onProgress\<close> is the
  business of the 100 ms throttle), each awaited operation it starts, and the calls of
  \<open>onDataExtracted\<close> and \<open>onError\<close>. The flags \<open>processingCancelledRef.current\<close>
  and \<open>cleanupRequired\<close> can only change while the function is suspended in an
  \<open>await\<close>; the schedule says during which await, counted from 1, the effect cleanup
  runs (the caller cancelled) and during which the 2-minute timer fires.
  Percentages are exact rationals where JavaScript has floating-point numbers.
\<close>

datatype event =
    ProgressUpdate rat
  | GetPage nat
  | GetTextContent nat
  | Render nat
  | CreateWorker
  | Recognize nat
  | Terminate
  | DataExtracted "txn list"
  | Error string

record sched =
  cleanupAt :: "nat option"
  timeoutAt :: "nat option"

text \<open>
  A document: the text items of each page (\<open>None\<close> when the page cannot be read),
  whether rendering a page succeeds, whether the OCR worker can be created, and what
  recognition gives for the img of a page (\<open>None\<close> when it rejects).
\<close>

record pdf =
  pages :: "string list option list"
  renderOk :: "nat \<Rightarrow> bool"
  workerOk :: bool
  ocrText :: "nat \<Rightarrow> string option"

record st =
  tick :: nat
  cancelled :: bool
  cleanup :: bool
  trace :: "event list"

definition initSt :: st where
  "initSt = \<lparr>tick = 0, cancelled = False, cleanup = False, trace = []\<rparr>"

definition emit :: "event \<Rightarrow> st \<Rightarrow> st" where
  "emit e s = s\<lparr>trace := trace s @ [e]\<rparr>"

definition stopped :: "st \<Rightarrow> bool" where
  \<comment> \<open>\<open>processingCancelledRef.current || cleanupRequired\<close>\<close>
  "stopped s = (cancelled s \<or> cleanup s)"

definition timeoutMessage :: string where
  "timeoutMessage =
     ''Processing is taking too long. Please try again with a smaller PDF or use manual entry.''"

definition await :: "sched \<Rightarrow> event \<Rightarrow> st \<Rightarrow> st" where
  \<comment> \<open>start the operation and suspend; the cleanup and the timer callback may run meanwhile\<close>
  "await sch e s =
     (let k = tick s + 1;
          s1 = (emit e s)\<lparr>tick := k\<rparr>;
          s2 = (if cleanupAt sch = Some k then s1\<lparr>cleanup := True, cancelled := True\<rparr> else s1)
      in if timeoutAt sch = Some k \<and> \<not> cancelled s2 \<and> \<not> cleanup s2
         then (emit (Error timeoutMessage) s2)\<lparr>cancelled := True\<rparr>
         else s2)"

definition throttledProgressUpdate :: "rat \<Rightarrow> st \<Rightarrow> st" where
  "throttledProgressUpdate progress s = emit (ProgressUpdate progress) s"

datatype 'a flow = Returned | Raised | Next 'a

definition pageReadable :: "pdf \<Rightarrow> nat \<Rightarrow> bool" where
  "pageReadable d i = (case pages d ! (i - 1) of None \<Rightarrow> False | Some _ \<Rightarrow> True)"

definition joinItems :: "string list \<Rightarrow> string" where
  \<comment> \<open>\<open>textContent.items.map(item => item.str).join(" ")\<close>\<close>
  "joinItems items = (case items of [] \<Rightarrow> [] | x # xs \<Rightarrow> foldl (\<lambda>acc y. acc @ '' '' @ y) x xs)"

definition pageText :: "pdf \<Rightarrow> nat \<Rightarrow> string" where
  "pageText d i = (case pages d ! (i - 1) of None \<Rightarrow> [] | Some items \<Rightarrow> joinItems items)"

subsection \<open>OCR backend\<close>

fun rasterLoop :: "sched \<Rightarrow> pdf \<Rightarrow> nat \<Rightarrow> nat list \<Rightarrow> nat list \<Rightarrow> st \<Rightarrow> nat list flow \<times> st" where
  \<comment> \<open>phase 1: \<open>for (let i = 1; i <= maxPagesToProcess; i++)\<close>; an image is named by its page\<close>
  "rasterLoop sch d n [] images s = (Next images, s)"
| "rasterLoop sch d n (i # is) images s =
     (if stopped s then (Returned, s)
      else let s1 = throttledProgressUpdate (25 + (of_nat i - 1) * (20 / of_nat n)) s;
               s2 = await sch (GetPage i) s1
           in if \<not> pageReadable d i then (Raised, s2)
              else let s3 = await sch (Render i) s2
                   in if \<not> renderOk d i then (Raised, s3)
                      else rasterLoop sch d n is (images @ [i])
                             (throttledProgressUpdate (25 + (of_nat i / of_nat n) * 20) s3))"

definition progressCallback :: "rat \<Rightarrow> st \<Rightarrow> st" where
  \<comment> \<open>the callback \<open>processScannedPdf\<close> hands to \<open>processImagesWithOcr\<close>\<close>
  "progressCallback progress s =
     (if stopped s then s
      else throttledProgressUpdate (45 + of_int (floor (progress * 35))) s)"

fun recognizeLoop :: "sched \<Rightarrow> pdf \<Rightarrow> nat \<Rightarrow> nat list \<Rightarrow> string list \<Rightarrow> st \<Rightarrow> string list \<times> st" where
  \<comment> \<open>the loop of \<open>processImagesWithOcr\<close>; \<open>results\<close> has one entry per img done\<close>
  "recognizeLoop sch d nImages [] results s = (results, s)"
| "recognizeLoop sch d nImages (img # images) results s =
     (let s1 = await sch (Recognize img) s
      in case ocrText d img of
           None \<Rightarrow> recognizeLoop sch d nImages images (results @ [[]]) s1
         | Some text \<Rightarrow>
             recognizeLoop sch d nImages images (results @ [text])
               (progressCallback (of_nat (length results + 1) / of_nat nImages) s1))"

definition processImagesWithOcr :: "sched \<Rightarrow> pdf \<Rightarrow> nat list \<Rightarrow> st \<Rightarrow> string list \<times> st" where
  "processImagesWithOcr sch d images s =
     (let (results, s1) = recognizeLoop sch d (length images) images [] s
      in (results, await sch Terminate s1))"

fun ocrDataLoop :: "string list \<Rightarrow> nat \<Rightarrow> nat \<Rightarrow> txn list \<Rightarrow> st \<Rightarrow> txn list flow \<times> st" where
  \<comment> \<open>phase 3: \<open>for (let i = 0; i < extractedText.length; i++)\<close>\<close>
  "ocrDataLoop [] i nImages allExtractedData s = (Next allExtractedData, s)"
| "ocrDataLoop (text # texts) i nImages allExtractedData s =
     (if stopped s then (Returned, s)
      else let s1 = throttledProgressUpdate (80 + of_nat i * (15 / of_nat nImages)) s;
               pageData = extractTableDataFromOcrText text (i + 1)
           in ocrDataLoop texts (i + 1) nImages (allExtractedData @ pageData) s1)"

definition ocrErrorMessage :: string where
  "ocrErrorMessage =
     ''Failed to process the scanned PDF with OCR. Please try a clearer scan or a text-based PDF.''"

definition catchWith :: "string \<Rightarrow> unit flow \<times> st \<Rightarrow> st" where
  \<comment> \<open>the \<open>catch\<close> of a backend: report the error unless the run was stopped\<close>
  "catchWith msg r =
     (case fst r of
        Raised \<Rightarrow> (if \<not> cancelled (snd r) \<and> \<not> cleanup (snd r) then emit (Error msg) (snd r)
                   else snd r)
      | _ \<Rightarrow> snd r)"

definition deliver :: "txn list \<Rightarrow> st \<Rightarrow> st" where
  \<comment> \<open>\<open>if (!cleanupRequired) { onDataExtracted(data); throttledProgressUpdate(100, ...) }\<close>\<close>
  "deliver extracted s =
     (if \<not> cleanup s then throttledProgressUpdate 100 (emit (DataExtracted extracted) s) else s)"

definition scannedBody :: "dateCtor \<Rightarrow> sched \<Rightarrow> pdf \<Rightarrow> st \<Rightarrow> unit flow \<times> st" where
  "scannedBody D sch d s0 =
     (let s1 = throttledProgressUpdate 25 s0;
          maxPagesToProcess = min (length (pages d)) 10
      in case rasterLoop sch d maxPagesToProcess [1..<Suc maxPagesToProcess] [] s1 of
           (Returned, s2) \<Rightarrow> (Returned, s2)
         | (Raised, s2) \<Rightarrow> (Raised, s2)
         | (Next images, s2) \<Rightarrow>
             if stopped s2 then (Returned, s2)
             else let s3 = await sch CreateWorker (throttledProgressUpdate 45 s2)
                  in if \<not> workerOk d then (Raised, s3)
                     else let (extractedText, s4) = processImagesWithOcr sch d images s3
                          in if stopped s4 then (Returned, s4)
                             else case ocrDataLoop extractedText 0 (length extractedText) []
                                         (throttledProgressUpdate 80 s4) of
                                    (Returned, s5) \<Rightarrow> (Returned, s5)
                                  | (Raised, s5) \<Rightarrow> (Raised, s5)
                                  | (Next allExtractedData, s5) \<Rightarrow>
                                      if stopped s5 then (Returned, s5)
                                      else (Returned,
                                            deliver (sortTransactionsByDate D allExtractedData)
                                              (throttledProgressUpdate 95 s5)))"

definition processScannedPdf :: "dateCtor \<Rightarrow> sched \<Rightarrow> pdf \<Rightarrow> st \<Rightarrow> st" where
  "processScannedPdf D sch d s = catchWith ocrErrorMessage (scannedBody D sch d s)"

subsection \<open>Text-layer backend\<close>

fun textLoop :: "sched \<Rightarrow> pdf \<Rightarrow> nat \<Rightarrow> nat list \<Rightarrow> txn list \<Rightarrow> st \<Rightarrow> txn list flow \<times> st" where
  \<comment> \<open>\<open>for (let i = 1; i <= maxPagesToProcess; i++)\<close>\<close>
  "textLoop sch d n [] allPagesData s = (Next allPagesData, s)"
| "textLoop sch d n (i # is) allPagesData s =
     (if stopped s then (Returned, s)
      else let s1 = throttledProgressUpdate (20 + (of_nat i - 1) * (60 / of_nat n)) s;
               s2 = await sch (GetPage i) s1
           in if \<not> pageReadable d i then (Raised, s2)
              else let s3 = await sch (GetTextContent i) s2;
                       pageData = extractTableDataFromText (pageText d i) i
                   in textLoop sch d n is (allPagesData @ pageData)
                        (throttledProgressUpdate (20 + (of_nat i / of_nat n) * 60) s3))"

definition pageBreak :: string where
  \<comment> \<open>\<open>"\n\n--- PAGE BREAK ---\n\n"\<close>\<close>
  "pageBreak = [CHR 0x0A, CHR 0x0A] @ ''--- PAGE BREAK ---'' @ [CHR 0x0A, CHR 0x0A]"

fun allTextLoop :: "sched \<Rightarrow> pdf \<Rightarrow> nat list \<Rightarrow> string \<Rightarrow> st \<Rightarrow> string flow \<times> st" where
  \<comment> \<open>the loop of \<open>extractAllText\<close>\<close>
  "allTextLoop sch d [] allText s = (Next allText, s)"
| "allTextLoop sch d (i # is) allText s =
     (let s1 = await sch (GetPage i) s
      in if \<not> pageReadable d i then (Raised, s1)
         else allTextLoop sch d is (allText @ pageText d i @ pageBreak)
                (await sch (GetTextContent i) s1))"

definition extractAllText :: "sched \<Rightarrow> pdf \<Rightarrow> nat \<Rightarrow> st \<Rightarrow> string flow \<times> st" where
  "extractAllText sch d maxPages s =
     (let numPages = min (length (pages d)) maxPages
      in allTextLoop sch d [1..<Suc numPages] [] s)"

definition compareNaive :: "dateCtor \<Rightarrow> txn \<Rightarrow> txn \<Rightarrow> int" where
  \<comment> \<open>the comparator of the fallback branch: \<open>new Date(a.Date) - new Date(b.Date)\<close>, NaN counting as 0\<close>
  "compareNaive D a b =
     (if truthy (Date a) \<and> truthy (Date b)
      then (case (D (orEmpty (Date a)), D (orEmpty (Date b))) of
              (Some x, Some y) \<Rightarrow> x - y
            | _ \<Rightarrow> 0)
      else 0)"

definition textErrorMessage :: string where
  "textErrorMessage = ''Failed to extract text from the PDF. Please try using OCR mode.''"

definition textFallback :: "dateCtor \<Rightarrow> sched \<Rightarrow> pdf \<Rightarrow> nat \<Rightarrow> st \<Rightarrow> unit flow \<times> st" where
  \<comment> \<open>the branch \<open>if (allPagesData.length === 0)\<close>; its \<open>throw\<close> is the result \<open>Raised\<close>\<close>
  "textFallback D sch d maxPagesToProcess s =
     (case extractAllText sch d maxPagesToProcess (throttledProgressUpdate 85 s) of
        (Returned, s1) \<Rightarrow> (Returned, s1)
      | (Raised, s1) \<Rightarrow> (Raised, s1)
      | (Next allText, s1) \<Rightarrow>
          (let extractedData = extractTableDataFromText allText 1
           in if 0 < length extractedData
              then (Returned, deliver (sortBy (compareNaive D) extractedData)
                                (throttledProgressUpdate 95 s1))
              else (Raised, s1)))"

definition textBody :: "dateCtor \<Rightarrow> sched \<Rightarrow> pdf \<Rightarrow> st \<Rightarrow> unit flow \<times> st" where
  "textBody D sch d s0 =
     (let maxPagesToProcess = min (length (pages d)) 20
      in case textLoop sch d maxPagesToProcess [1..<Suc maxPagesToProcess] [] s0 of
           (Returned, s1) \<Rightarrow> (Returned, s1)
         | (Raised, s1) \<Rightarrow> (Raised, s1)
         | (Next allPagesData, s1) \<Rightarrow>
             if stopped s1 then (Returned, s1)
             else let s2 = throttledProgressUpdate 80 s1
                  in if length allPagesData = 0 then textFallback D sch d maxPagesToProcess s2
                     else if stopped s2 then (Returned, s2)
                     else let s3 = throttledProgressUpdate 90 s2;
                              uniqueTransactions = removeDuplicateTransactions allPagesData;
                              sortedTransactions = sortTransactionsByDate D uniqueTransactions
                          in (Returned, deliver sortedTransactions (throttledProgressUpdate 95 s3)))"

definition processTextBasedPdf :: "dateCtor \<Rightarrow> sched \<Rightarrow> pdf \<Rightarrow> st \<Rightarrow> st" where
  "processTextBasedPdf D sch d s = catchWith textErrorMessage (textBody D sch d s)"

section \<open>The two timeout timers\<close>

text \<open>
  Time is in milliseconds. A pending \<open>setTimeout\<close> is the time at which it fires.
  \<open>processPdf\<close> sets its 2-minute timer once, at the start, and clears it in its
  \<open>finally\<close>; the converter sets its 3-minute timer when \<open>isProcessing\<close> becomes true
  and sets it again in \<open>handleProgressUpdate\<close>. When \<open>isProcessing\<close> becomes false the
  processor is unmounted: both effect cleanups run and clear both timers.
\<close>

record ctl =
  now :: nat
  innerTimer :: "nat option"
  outerTimer :: "nat option"
  lastInner :: nat
  lastOuter :: nat
  isProcessing :: bool
  cancelledRef :: bool
  errorMsg :: "string option"
  processingProgress :: rat

definition outerTimeoutMessage :: string where
  "outerTimeoutMessage =
     ''Processing timed out. The PDF might be too large or complex. Please try a smaller file or use manual entry.''"

definition startProcessing :: "nat \<Rightarrow> ctl" where
  \<comment> \<open>\<open>handleExtract\<close> at time \<open>t\<close>, then the two effects that run when \<open>isProcessing\<close> is true\<close>
  "startProcessing t =
     \<lparr>now = t, innerTimer = Some (t + 120000), outerTimer = Some (t + 180000),
      lastInner = 0, lastOuter = 0, isProcessing = True, cancelledRef = False,
      errorMsg = None, processingProgress = 0\<rparr>"

definition stopProcessing :: "ctl \<Rightarrow> ctl" where
  \<comment> \<open>\<open>setIsProcessing(false)\<close> and the cleanups it triggers\<close>
  "stopProcessing c =
     c\<lparr>isProcessing := False, cancelledRef := True, innerTimer := None, outerTimer := None\<rparr>"

definition handleExtractionError :: "string \<Rightarrow> ctl \<Rightarrow> ctl" where
  "handleExtractionError errorMessage c =
     stopProcessing (c\<lparr>errorMsg := Some errorMessage, processingProgress := 0\<rparr>)"

definition fireInner :: "ctl \<Rightarrow> ctl" where
  \<comment> \<open>the callback of the timer of \<open>processPdf\<close>\<close>
  "fireInner c =
     (if \<not> cancelledRef c
      then handleExtractionError timeoutMessage (c\<lparr>innerTimer := None, cancelledRef := True\<rparr>)
      else c\<lparr>innerTimer := None\<rparr>)"

definition fireOuter :: "ctl \<Rightarrow> ctl" where
  \<comment> \<open>the callback of the timer of the converter\<close>
  "fireOuter c =
     stopProcessing (c\<lparr>outerTimer := None, errorMsg := Some outerTimeoutMessage,
                       processingProgress := 0\<rparr>)"

definition elapseTo :: "nat \<Rightarrow> ctl \<Rightarrow> ctl" where
  \<comment> \<open>let the clock run to \<open>t\<close>: a timer that is due fires, the earlier one first
      (the callback that runs clears the other timer)\<close>
  "elapseTo t c =
     (let c1 = (case (innerTimer c, outerTimer c) of
                  (Some inner, Some outer) \<Rightarrow>
                    if inner \<le> t \<and> inner \<le> outer then fireInner c
                    else if outer \<le> t then fireOuter c else c
                | (Some inner, None) \<Rightarrow> if inner \<le> t then fireInner c else c
                | (None, Some outer) \<Rightarrow> if outer \<le> t then fireOuter c else c
                | (None, None) \<Rightarrow> c)
      in c1\<lparr>now := max t (now c)\<rparr>)"

definition handleProgressUpdate :: "rat \<Rightarrow> ctl \<Rightarrow> ctl" where
  "handleProgressUpdate progress c =
     (if now c - lastOuter c > 100 \<or> progress = 100
      then c\<lparr>processingProgress := progress, lastOuter := now c,
             outerTimer := (if outerTimer c \<noteq> None then Some (now c + 180000) else None)\<rparr>
      else c)"

definition progressAt :: "rat \<Rightarrow> ctl \<Rightarrow> ctl" where
  \<comment> \<open>\<open>throttledProgressUpdate\<close> of the processor, with \<open>onProgress = handleProgressUpdate\<close>\<close>
  "progressAt progress c =
     (if now c - lastInner c > 100 \<or> progress = 100 \<or> progress = 0
      then (handleProgressUpdate progress c)\<lparr>lastInner := now c\<rparr>
      else c)"

definition progressEvent :: "ctl \<Rightarrow> nat \<times> rat \<Rightarrow> ctl" where
  \<comment> \<open>the pipeline reports progress at a time, if it is still running then\<close>
  "progressEvent c ev =
     (let c1 = elapseTo (fst ev) c
      in if isProcessing c1 then progressAt (snd ev) c1 else c1)"

definition runProgress :: "nat \<Rightarrow> (nat \<times> rat) list \<Rightarrow> ctl" where
  "runProgress t0 evs = foldl progressEvent (startProcessing t0) evs"

section \<open>Manual entry: CSV with a header row\<close>

text \<open>
  A row is a JavaScript object with string values: its keys in insertion order.
  \<open>JSON.parse\<close> belongs to the engine; \<open>handleSubmit\<close> takes its verdict as the
  parameter \<open>J\<close>: \<open>None\<close> when it throws, otherwise whether the value is an array,
  another object, or neither.
\<close>

type_synonym row = "(string \<times> string) list"

datatype 'j jsonKind = JArray 'j | JObject 'j | JOther

datatype 'j submitted =
    SetError string
  | SubmitJson 'j
  | SubmitJsonSingle 'j
  | SubmitRows "row list"

fun rowSet :: "row \<Rightarrow> string \<Rightarrow> string \<Rightarrow> row" where
  \<comment> \<open>\<open>row[k] = v\<close>\<close>
  "rowSet [] k v = [(k, v)]"
| "rowSet (e # es) k v = (if fst e = k then (k, v) # es else e # rowSet es k v)"

definition makeRow :: "string list \<Rightarrow> string list \<Rightarrow> row" where
  \<comment> \<open>\<open>for (let j = 0; j < headers.length; j++) row[headers[j]] = values[j]\<close>\<close>
  "makeRow headers vals = foldl (\<lambda>r hv. rowSet r (fst hv) (snd hv)) [] (zip headers vals)"

definition csvCells :: "string \<Rightarrow> string list" where
  \<comment> \<open>\<open>line.split(",").map(value => value.trim())\<close>\<close>
  "csvCells line = map trim (splitOn CHR '','' line)"

fun csvRows :: "string list \<Rightarrow> string list \<Rightarrow> row list" where
  "csvRows headers [] = []"
| "csvRows headers (line # ls) =
     (let vals = csvCells line
      in if length vals \<noteq> length headers then csvRows headers ls
         else makeRow headers vals # csvRows headers ls)"

definition parseCsv :: "string \<Rightarrow> string + row list" where
  \<comment> \<open>the part of \<open>handleSubmit\<close> after the JSON attempt: an error message or the rows\<close>
  "parseCsv inputText =
     (let ls = filter (\<lambda>line. trim line \<noteq> []) (splitOn CHR 0x0A inputText)
      in case ls of
           [] \<Rightarrow> Inl ''Please enter data with headers and at least one transaction''
         | [h] \<Rightarrow> Inl ''Please enter data with headers and at least one transaction''
         | h # dataLines \<Rightarrow>
             (let rows = csvRows (csvCells h) dataLines
              in if length rows = 0
                 then Inl ''Could not parse any valid transactions from the input''
                 else Inr rows))"

definition handleSubmit :: "(string \<Rightarrow> 'j jsonKind option) \<Rightarrow> string \<Rightarrow> 'j submitted" where
  "handleSubmit J inputText =
     (if trim inputText = [] then SetError ''Please enter some transaction data''
      else case J inputText of
             Some (JArray jsonData) \<Rightarrow> SubmitJson jsonData
           | Some (JObject jsonData) \<Rightarrow> SubmitJsonSingle jsonData
           | _ \<Rightarrow> (case parseCsv inputText of
                     Inl message \<Rightarrow> SetError message
                   | Inr rows \<Rightarrow> SubmitRows rows))"

section \<open>Notions used to state the properties\<close>

text \<open>The regular language of a pattern, with the assertions \<open>\b\<close>, \<open>^\<close>, \<open>$\<close> matching the empty word.\<close>

inductive matches :: "regex \<Rightarrow> string \<Rightarrow> bool" where
  mChr: "P c \<Longrightarrow> matches (Chr P) [c]"
| mSeq: "matches a x \<Longrightarrow> matches b y \<Longrightarrow> matches (Seq a b) (x @ y)"
| mAltL: "matches a x \<Longrightarrow> matches (Alt a b) x"
| mAltR: "matches b x \<Longrightarrow> matches (Alt a b) x"
| mOptNone: "matches (Opt a) []"
| mOptSome: "matches a x \<Longrightarrow> matches (Opt a) x"
| mStarNil: "matches (Star a) []"
| mStarCons: "matches a x \<Longrightarrow> matches (Star a) y \<Longrightarrow> matches (Star a) (x @ y)"
| mGrp: "matches a x \<Longrightarrow> matches (Grp a) x"
| mEps: "matches Eps []"
| mWordB: "matches WordB []"
| mBos: "matches Bos []"
| mEos: "matches Eos []"

definition keyed :: "txn \<Rightarrow> string \<times> txn" where
  \<comment> \<open>the entry \<open>removeDuplicateTransactions\<close> stores for a record\<close>
  "keyed t = (dedupKey t, t)"

definition isFirst :: "txn list \<Rightarrow> nat \<Rightarrow> bool" where
  \<comment> \<open>no earlier record of the list has the key of record \<open>i\<close>\<close>
  "isFirst ts i = (\<not> (\<exists>j<i. dedupKey (ts ! j) = dedupKey (ts ! i)))"

definition firstNonEmpty :: "string option list \<Rightarrow> string" where
  \<comment> \<open>the first field of the list that is present and not the empty string, else the
      empty string\<close>
  "firstNonEmpty fs =
     (case filter (\<lambda>f. f \<noteq> None \<and> f \<noteq> Some []) fs of [] \<Rightarrow> [] | f # _ \<Rightarrow> the f)"

definition dateTime :: "dateCtor \<Rightarrow> txn \<Rightarrow> int option" where
  \<comment> \<open>the time the comparator sees for a record: \<open>None\<close> when \<open>Date\<close> is missing, empty
      or fails every parse\<close>
  "dateTime D t = (if truthy (Date t) then parseDate D (orEmpty (Date t)) else None)"

definition timeOf :: "dateCtor \<Rightarrow> txn \<Rightarrow> int" where
  \<comment> \<open>the parsed time of a record whose date parses\<close>
  "timeOf D t = (case dateTime D t of None \<Rightarrow> 0 | Some v \<Rightarrow> v)"

definition parses :: "dateCtor \<Rightarrow> txn \<Rightarrow> bool" where
  "parses D t = (case dateTime D t of None \<Rightarrow> False | Some _ \<Rightarrow> True)"

fun adjacentOk :: "('a \<Rightarrow> 'a \<Rightarrow> int) \<Rightarrow> 'a list \<Rightarrow> bool" where
  \<comment> \<open>the comparator puts no element strictly after its successor\<close>
  "adjacentOk cmp [] = True"
| "adjacentOk cmp [x] = True"
| "adjacentOk cmp (x # y # ys) = (cmp x y \<le> 0 \<and> adjacentOk cmp (y # ys))"

definition dateSorted :: "dateCtor \<Rightarrow> txn list \<Rightarrow> bool" where
  "dateSorted D ts = adjacentOk (compareByDate D) ts"

definition duplicateFree :: "txn list \<Rightarrow> bool" where
  "duplicateFree ts = distinct (map dedupKey ts)"

definition tagged :: "nat \<Rightarrow> string \<Rightarrow> txn" where
  \<comment> \<open>the record a candidate line contributes to its page\<close>
  "tagged pageNum line = (extractTransactionFromLine line)\<lparr>Page := Some pageNum\<rparr>"

definition never :: sched where
  \<comment> \<open>a run that is neither cancelled nor timed out\<close>
  "never = \<lparr>cleanupAt = None, timeoutAt = None\<rparr>"

definition isCallback :: "event \<Rightarrow> bool" where
  \<comment> \<open>\<open>onDataExtracted\<close> and \<open>onError\<close>\<close>
  "isCallback e = (case e of DataExtracted _ \<Rightarrow> True | Error _ \<Rightarrow> True | _ \<Rightarrow> False)"

definition pageCap :: "pdf \<Rightarrow> nat" where
  \<comment> \<open>\<open>Math.min(numPages, 20)\<close>\<close>
  "pageCap d = min (length (pages d)) 20"

definition perPageData :: "pdf \<Rightarrow> txn list" where
  \<comment> \<open>what the page loop of the text-layer backend accumulates\<close>
  "perPageData d =
     concat (map (\<lambda>i. extractTableDataFromText (pageText d i) i) [1..<Suc (pageCap d)])"

definition wholeText :: "pdf \<Rightarrow> string" where
  \<comment> \<open>what \<open>extractAllText\<close> returns: every page text followed by the page-break marker\<close>
  "wholeText d = concat (map (\<lambda>i. pageText d i @ pageBreak) [1..<Suc (pageCap d)])"

definition pageLoopTrace :: "nat \<Rightarrow> nat \<Rightarrow> event list" where
  "pageLoopTrace n i =
     [ProgressUpdate (20 + (of_nat i - 1) * (60 / of_nat n)), GetPage i, GetTextContent i,
      ProgressUpdate (20 + (of_nat i / of_nat n) * 60)]"

definition tenPages :: pdf where
  \<comment> \<open>a scanned document of ten pages; recognition finds one transaction line on each\<close>
  "tenPages =
     \<lparr>pages = replicate 10 (Some []), renderOk = (\<lambda>i. True), workerOk = True,
      ocrText = (\<lambda>i. Some ''15/04/2024 ACH DEBIT:TXV/G4951885 500.00 86040.65'')\<rparr>"

definition csvSample :: string where
  "csvSample = ''Date,Description,Debit,Credit,Balance'' @ [CHR 0x0A] @
     ''14/04/2024,FT/0000885394301/15894005677/CR CARD PYMT,,50000.00,86540.65''"

definition dated :: "string \<Rightarrow> string \<Rightarrow> txn" where
  \<comment> \<open>a record with a date and a description only\<close>
  "dated date desc = emptyTxn\<lparr>Date := Some date, Description := Some desc\<rparr>"

definition noEmptyData :: "st \<Rightarrow> bool" where
  \<comment> \<open>so far \<open>onDataExtracted\<close> was never called with an empty list\<close>
  "noEmptyData s = (DataExtracted [] \<notin> set (trace s))"

section \<open>Properties of the pattern matcher\<close>

text \<open>
  C1. The line \<open>15/04/2024 ACH DEBIT:TXV/G4951885 500.00 86040.65\<close> gives exactly the record
  with Date \<open>15/04/2024\<close>, Debit \<open>500.00\<close>, Balance \<open>86040.65\<close> and Description
  \<open>ACH DEBIT:TXV/G4951885\<close>: the first date match becomes Date and is removed from the line,
  the amount matches are \<open>500.00\<close> and \<open>86040.65\<close> (each with its leading blank), the last
  one is the Balance, and the one before it is a Debit because the amount has no minus sign
  but the line contains \<open>debit\<close> when lower-cased.
\<close>

theorem extractTransactionFromLine_sample:
  "extractTransactionFromLine ''15/04/2024 ACH DEBIT:TXV/G4951885 500.00 86040.65'' =
     \<lparr>Date = Some ''15/04/2024'', Amount = None, Debit = Some ''500.00'', Credit = None,
      Balance = Some ''86040.65'', Description = Some ''ACH DEBIT:TXV/G4951885'', Page = None\<rparr>
   \<and> extractDate ''15/04/2024 ACH DEBIT:TXV/G4951885 500.00 86040.65'' =
       (emptyTxn\<lparr>Date := Some ''15/04/2024''\<rparr>, '' ACH DEBIT:TXV/G4951885 500.00 86040.65'')
   \<and> matchAll (Grp amountPattern) '' ACH DEBIT:TXV/G4951885 500.00 86040.65'' =
       ['' 500.00'', '' 86040.65'']
   \<and> \<not> includesStr ''500.00'' ''-''
   \<and> includesStr (toLowerCase '' ACH DEBIT:TXV/G4951885 500.00 86040.65'') ''debit''"
  by code_simp

theorem extractTransactionFromLine_sample_witness:
  "Debit (extractTransactionFromLine ''15/04/2024 ACH DEBIT:TXV/G4951885 500.00 86040.65'')
     = Some ''500.00''"
  using extractTransactionFromLine_sample by simp

section \<open>Properties of deduplication\<close>

lemma mapHas_keyed: "mapHas (map keyed vs) k \<longleftrightarrow> k \<in> dedupKey ` set vs"
  by (simp add: mapHas_def keyed_def comp_def)

lemma dedupStep_keyed:
  "dedupStep (map keyed vs) t =
     (if dedupKey t \<in> dedupKey ` set vs then map keyed vs else map keyed (vs @ [t]))"
  by (simp add: dedupStep_def mapHas_keyed mapSet_def Let_def) (simp add: keyed_def)

lemma dedup_fold_shape:
  "\<exists>vs. foldl dedupStep [] ts = map keyed vs \<and> dedupKey ` set vs = dedupKey ` set ts"
proof (induction ts rule: rev_induct)
  case Nil
  show ?case by simp
next
  case (snoc t ts)
  then obtain vs where vs: "foldl dedupStep [] ts = map keyed vs"
    and ks: "dedupKey ` set vs = dedupKey ` set ts" by blast
  show ?case
  proof (cases "dedupKey t \<in> dedupKey ` set vs")
    case True
    have "foldl dedupStep [] (ts @ [t]) = map keyed vs"
      using True by (simp add: vs dedupStep_keyed)
    moreover have "dedupKey ` set vs = dedupKey ` set (ts @ [t])"
      using True ks by auto
    ultimately show ?thesis by blast
  next
    case False
    have "foldl dedupStep [] (ts @ [t]) = map keyed (vs @ [t])"
      using False by (simp add: vs dedupStep_keyed)
    moreover have "dedupKey ` set (vs @ [t]) = dedupKey ` set (ts @ [t])"
      using ks by auto
    ultimately show ?thesis by blast
  qed
qed

lemma removeDuplicateTransactions_keyed:
  "foldl dedupStep [] ts = map keyed vs \<Longrightarrow> removeDuplicateTransactions ts = vs"
  by (simp add: removeDuplicateTransactions_def mapValues_def keyed_def comp_def)

lemma removeDuplicateTransactions_snoc:
  "removeDuplicateTransactions (ts @ [t]) =
     (if dedupKey t \<in> dedupKey ` set ts then removeDuplicateTransactions ts
      else removeDuplicateTransactions ts @ [t])"
proof -
  obtain vs where vs: "foldl dedupStep [] ts = map keyed vs"
    and ks: "dedupKey ` set vs = dedupKey ` set ts"
    using dedup_fold_shape by blast
  have r: "removeDuplicateTransactions ts = vs"
    by (rule removeDuplicateTransactions_keyed [OF vs])
  have "foldl dedupStep [] (ts @ [t]) =
          map keyed (if dedupKey t \<in> dedupKey ` set ts then vs else vs @ [t])"
    by (simp add: vs dedupStep_keyed ks)
  then have "removeDuplicateTransactions (ts @ [t]) =
          (if dedupKey t \<in> dedupKey ` set ts then vs else vs @ [t])"
    by (rule removeDuplicateTransactions_keyed)
  then show ?thesis by (simp add: r)
qed

lemma removeDuplicateTransactions_Nil: "removeDuplicateTransactions [] = []"
  by (simp add: removeDuplicateTransactions_def mapValues_def)

lemma isFirst_last: "isFirst (ts @ [t]) (length ts) \<longleftrightarrow> dedupKey t \<notin> dedupKey ` set ts"
proof -
  have "dedupKey t \<in> dedupKey ` set ts \<longleftrightarrow> (\<exists>j<length ts. dedupKey (ts ! j) = dedupKey t)"
    by (metis (no_types, lifting) image_iff in_set_conv_nth)
  then show ?thesis by (simp add: isFirst_def nth_append)
qed

lemma removeDuplicateTransactions_index:
  "removeDuplicateTransactions ts = map (\<lambda>i. ts ! i) (filter (isFirst ts) [0..<length ts])"
proof (induction ts rule: rev_induct)
  case Nil
  show ?case by (simp add: removeDuplicateTransactions_Nil)
next
  case (snoc t ts)
  have a: "filter (isFirst (ts @ [t])) [0..<length ts] = filter (isFirst ts) [0..<length ts]"
    by (rule filter_cong) (simp_all add: isFirst_def nth_append)
  have b: "map (\<lambda>i. (ts @ [t]) ! i) (filter (isFirst ts) [0..<length ts])
           = map (\<lambda>i. ts ! i) (filter (isFirst ts) [0..<length ts])"
    by (rule map_cong) (simp_all add: nth_append)
  show ?case
    using snoc.IH by (simp add: removeDuplicateTransactions_snoc a b isFirst_last)
qed

lemma keys_removeDuplicateTransactions:
  "dedupKey ` set (removeDuplicateTransactions ts) = dedupKey ` set ts"
  using dedup_fold_shape [of ts] removeDuplicateTransactions_keyed by metis

lemma distinct_keys_removeDuplicateTransactions:
  "distinct (map dedupKey (removeDuplicateTransactions ts))"
proof (induction ts rule: rev_induct)
  case Nil
  show ?case by (simp add: removeDuplicateTransactions_Nil)
next
  case (snoc t ts)
  then show ?case
    by (simp add: removeDuplicateTransactions_snoc keys_removeDuplicateTransactions)
qed

lemma removeDuplicateTransactions_id:
  "distinct (map dedupKey ts) \<Longrightarrow> removeDuplicateTransactions ts = ts"
proof (induction ts rule: rev_induct)
  case Nil
  show ?case by (simp add: removeDuplicateTransactions_Nil)
next
  case (snoc t ts)
  then show ?case by (simp add: removeDuplicateTransactions_snoc)
qed

lemma removeDuplicateTransactions_pair:
  "dedupKey a = dedupKey b \<Longrightarrow> removeDuplicateTransactions [a, b] = [a]"
  using removeDuplicateTransactions_snoc [of "[a]" b] removeDuplicateTransactions_snoc [of "[]" a]
  by (simp add: removeDuplicateTransactions_Nil)

lemma amountStr_fields: "amountStr t = firstNonEmpty [Amount t, Debit t, Credit t]"
  by (simp add: amountStr_def firstNonEmpty_def truthy_def orEmpty_def split: option.splits)

lemma descStart_fields:
  "descStart t = (case Description t of None \<Rightarrow> [] | Some d \<Rightarrow> take 10 d)"
  by (simp add: descStart_def orEmpty_def split: option.splits)

lemma dedupKey_fields:
  "dedupKey t = (case Date t of None \<Rightarrow> [] | Some d \<Rightarrow> d) @ ''-''
     @ firstNonEmpty [Amount t, Debit t, Credit t] @ ''-''
     @ (case Description t of None \<Rightarrow> [] | Some d \<Rightarrow> take 10 d)"
  by (simp add: dedupKey_def amountStr_fields descStart_fields orEmpty_def split: option.splits)

lemma dedupKey_separates:
  assumes "dedupKey a = dedupKey b"
    and "(orEmpty (Date a) = orEmpty (Date b) \<and> descStart a = descStart b)
         \<or> (orEmpty (Date a) = orEmpty (Date b) \<and> amountStr a = amountStr b)
         \<or> (amountStr a = amountStr b \<and> descStart a = descStart b)"
  shows "orEmpty (Date a) = orEmpty (Date b) \<and> amountStr a = amountStr b
         \<and> descStart a = descStart b"
  using assms by (auto simp: dedupKey_def)

lemma removeDuplicateTransactions_apart:
  "dedupKey a \<noteq> dedupKey b \<Longrightarrow> removeDuplicateTransactions [a, b] = [a, b]"
  by (rule removeDuplicateTransactions_id) simp

text \<open>
  C3. Deduplication keeps exactly the records that are the first of their key in input
  order, in that order: the output is the input restricted to the positions with no
  earlier record of the same key. So the keys of the output are pairwise different, no key
  of the input is lost, and two records that agree on Date, on the first non-empty of
  Amount, Debit and Credit, and on the first 10 characters of Description collapse to
  the first one. The key is built from these three components and from nothing else: it
  is the Date (empty when missing), the first non-empty of Amount, Debit and Credit, and
  the first 10 characters of the Description, joined by \<open>-\<close>; two records that agree on
  two of the components and differ on the third have different keys, and both are kept.
\<close>

theorem removeDuplicateTransactions_keeps_first:
  "removeDuplicateTransactions ts = map (\<lambda>i. ts ! i) (filter (isFirst ts) [0..<length ts])
   \<and> distinct (map dedupKey (removeDuplicateTransactions ts))
   \<and> dedupKey ` set (removeDuplicateTransactions ts) = dedupKey ` set ts
   \<and> (Date a = Date b \<and> amountStr a = amountStr b \<and> descStart a = descStart b
        \<longrightarrow> dedupKey a = dedupKey b \<and> removeDuplicateTransactions [a, b] = [a])
   \<and> dedupKey a = (case Date a of None \<Rightarrow> [] | Some d \<Rightarrow> d) @ ''-''
        @ firstNonEmpty [Amount a, Debit a, Credit a] @ ''-''
        @ (case Description a of None \<Rightarrow> [] | Some d \<Rightarrow> take 10 d)
   \<and> amountStr a = firstNonEmpty [Amount a, Debit a, Credit a]
   \<and> descStart a = (case Description a of None \<Rightarrow> [] | Some d \<Rightarrow> take 10 d)
   \<and> (orEmpty (Date a) = orEmpty (Date b) \<and> descStart a = descStart b
        \<and> amountStr a \<noteq> amountStr b
        \<longrightarrow> dedupKey a \<noteq> dedupKey b \<and> removeDuplicateTransactions [a, b] = [a, b])
   \<and> (orEmpty (Date a) = orEmpty (Date b) \<and> amountStr a = amountStr b
        \<and> descStart a \<noteq> descStart b
        \<longrightarrow> dedupKey a \<noteq> dedupKey b \<and> removeDuplicateTransactions [a, b] = [a, b])
   \<and> (amountStr a = amountStr b \<and> descStart a = descStart b
        \<and> orEmpty (Date a) \<noteq> orEmpty (Date b)
        \<longrightarrow> dedupKey a \<noteq> dedupKey b \<and> removeDuplicateTransactions [a, b] = [a, b])"
proof -
  have same: "dedupKey a = dedupKey b \<and> removeDuplicateTransactions [a, b] = [a]"
    if "Date a = Date b \<and> amountStr a = amountStr b \<and> descStart a = descStart b"
  proof -
    have k: "dedupKey a = dedupKey b" using that by (simp add: dedupKey_def)
    then show ?thesis by (simp add: removeDuplicateTransactions_pair)
  qed
  have apart: "dedupKey a \<noteq> dedupKey b \<and> removeDuplicateTransactions [a, b] = [a, b]"
    if "(orEmpty (Date a) = orEmpty (Date b) \<and> descStart a = descStart b
           \<and> amountStr a \<noteq> amountStr b)
        \<or> (orEmpty (Date a) = orEmpty (Date b) \<and> amountStr a = amountStr b
           \<and> descStart a \<noteq> descStart b)
        \<or> (amountStr a = amountStr b \<and> descStart a = descStart b
           \<and> orEmpty (Date a) \<noteq> orEmpty (Date b))"
  proof -
    have "dedupKey a \<noteq> dedupKey b"
      using that dedupKey_separates [of a b] by blast
    then show ?thesis by (simp add: removeDuplicateTransactions_apart)
  qed
  show ?thesis
    using removeDuplicateTransactions_index [of ts] distinct_keys_removeDuplicateTransactions [of ts]
      keys_removeDuplicateTransactions [of ts] same apart
      dedupKey_fields [of a] amountStr_fields [of a] descStart_fields [of a]
    by blast
qed

theorem removeDuplicateTransactions_keeps_first_witness:
  "removeDuplicateTransactions
     [emptyTxn\<lparr>Date := Some ''15/04/2024'', Debit := Some ''500.00'',
               Description := Some ''ACH DEBIT:TXV/G4951885'', Page := Some 1\<rparr>,
      emptyTxn\<lparr>Date := Some ''15/04/2024'', Debit := Some ''500.00'',
               Description := Some ''ACH DEBIT:another'', Page := Some 2\<rparr>]
   = [emptyTxn\<lparr>Date := Some ''15/04/2024'', Debit := Some ''500.00'',
               Description := Some ''ACH DEBIT:TXV/G4951885'', Page := Some 1\<rparr>]
   \<and> dedupKey (emptyTxn\<lparr>Date := Some ''15/04/2024'', Debit := Some ''500.00'',
               Description := Some ''ACH DEBIT:TXV/G4951885'', Page := Some 1\<rparr>)
     = ''15/04/2024-500.00-ACH DEBIT:''
   \<and> removeDuplicateTransactions
       [emptyTxn\<lparr>Date := Some ''15/04/2024'', Debit := Some ''500.00'',
                 Description := Some ''ACH DEBIT:TXV/G4951885'', Page := Some 1\<rparr>,
        emptyTxn\<lparr>Date := Some ''15/04/2024'', Debit := Some ''700.00'',
                 Description := Some ''ACH DEBIT:TXV/G4951885'', Page := Some 1\<rparr>]
     = [emptyTxn\<lparr>Date := Some ''15/04/2024'', Debit := Some ''500.00'',
                 Description := Some ''ACH DEBIT:TXV/G4951885'', Page := Some 1\<rparr>,
        emptyTxn\<lparr>Date := Some ''15/04/2024'', Debit := Some ''700.00'',
                 Description := Some ''ACH DEBIT:TXV/G4951885'', Page := Some 1\<rparr>]
   \<and> removeDuplicateTransactions
       [emptyTxn\<lparr>Date := Some ''15/04/2024'', Debit := Some ''500.00'',
                 Description := Some ''ACH DEBIT:TXV/G4951885'', Page := Some 1\<rparr>,
        emptyTxn\<lparr>Date := Some ''15/04/2024'', Debit := Some ''500.00'',
                 Description := Some ''NEFT TRANSFER'', Page := Some 1\<rparr>]
     = [emptyTxn\<lparr>Date := Some ''15/04/2024'', Debit := Some ''500.00'',
                 Description := Some ''ACH DEBIT:TXV/G4951885'', Page := Some 1\<rparr>,
        emptyTxn\<lparr>Date := Some ''15/04/2024'', Debit := Some ''500.00'',
                 Description := Some ''NEFT TRANSFER'', Page := Some 1\<rparr>]
   \<and> removeDuplicateTransactions
       [emptyTxn\<lparr>Date := Some ''15/04/2024'', Debit := Some ''500.00'',
                 Description := Some ''ACH DEBIT:TXV/G4951885'', Page := Some 1\<rparr>,
        emptyTxn\<lparr>Date := Some ''16/04/2024'', Debit := Some ''500.00'',
                 Description := Some ''ACH DEBIT:TXV/G4951885'', Page := Some 1\<rparr>]
     = [emptyTxn\<lparr>Date := Some ''15/04/2024'', Debit := Some ''500.00'',
                 Description := Some ''ACH DEBIT:TXV/G4951885'', Page := Some 1\<rparr>,
        emptyTxn\<lparr>Date := Some ''16/04/2024'', Debit := Some ''500.00'',
                 Description := Some ''ACH DEBIT:TXV/G4951885'', Page := Some 1\<rparr>]"
proof -
  let ?a = "emptyTxn\<lparr>Date := Some ''15/04/2024'', Debit := Some ''500.00'',
               Description := Some ''ACH DEBIT:TXV/G4951885'', Page := Some 1\<rparr>"
  let ?b = "emptyTxn\<lparr>Date := Some ''15/04/2024'', Debit := Some ''500.00'',
               Description := Some ''ACH DEBIT:another'', Page := Some 2\<rparr>"
  let ?c = "emptyTxn\<lparr>Date := Some ''15/04/2024'', Debit := Some ''700.00'',
               Description := Some ''ACH DEBIT:TXV/G4951885'', Page := Some 1\<rparr>"
  let ?d = "emptyTxn\<lparr>Date := Some ''15/04/2024'', Debit := Some ''500.00'',
               Description := Some ''NEFT TRANSFER'', Page := Some 1\<rparr>"
  let ?e = "emptyTxn\<lparr>Date := Some ''16/04/2024'', Debit := Some ''500.00'',
               Description := Some ''ACH DEBIT:TXV/G4951885'', Page := Some 1\<rparr>"
  have hb: "Date ?a = Date ?b \<and> amountStr ?a = amountStr ?b \<and> descStart ?a = descStart ?b"
    by (simp add: emptyTxn_def amountStr_def descStart_def truthy_def orEmpty_def)
  have hc: "orEmpty (Date ?a) = orEmpty (Date ?c) \<and> descStart ?a = descStart ?c
            \<and> amountStr ?a \<noteq> amountStr ?c"
    by (simp add: emptyTxn_def amountStr_def descStart_def truthy_def orEmpty_def)
  have hd: "orEmpty (Date ?a) = orEmpty (Date ?d) \<and> amountStr ?a = amountStr ?d
            \<and> descStart ?a \<noteq> descStart ?d"
    by (simp add: emptyTxn_def amountStr_def descStart_def truthy_def orEmpty_def)
  have he: "amountStr ?a = amountStr ?e \<and> descStart ?a = descStart ?e
            \<and> orEmpty (Date ?a) \<noteq> orEmpty (Date ?e)"
    by (simp add: emptyTxn_def amountStr_def descStart_def truthy_def orEmpty_def)
  have k: "(case Date ?a of None \<Rightarrow> [] | Some d \<Rightarrow> d) @ ''-''
        @ firstNonEmpty [Amount ?a, Debit ?a, Credit ?a] @ ''-''
        @ (case Description ?a of None \<Rightarrow> [] | Some d \<Rightarrow> take 10 d)
        = ''15/04/2024-500.00-ACH DEBIT:''"
    by (simp add: emptyTxn_def firstNonEmpty_def)
  have rb: "removeDuplicateTransactions [?a, ?b] = [?a]"
    using removeDuplicateTransactions_keeps_first [of "[]" ?a ?b] hb by blast
  have rk: "dedupKey ?a = ''15/04/2024-500.00-ACH DEBIT:''"
    using removeDuplicateTransactions_keeps_first [of "[]" ?a ?b] k by presburger
  have rc: "removeDuplicateTransactions [?a, ?c] = [?a, ?c]"
    using removeDuplicateTransactions_keeps_first [of "[]" ?a ?c] hc by blast
  have rd: "removeDuplicateTransactions [?a, ?d] = [?a, ?d]"
    using removeDuplicateTransactions_keeps_first [of "[]" ?a ?d] hd by blast
  have re: "removeDuplicateTransactions [?a, ?e] = [?a, ?e]"
    using removeDuplicateTransactions_keeps_first [of "[]" ?a ?e] he by blast
  show ?thesis using rb rk rc rd re by blast
qed

section \<open>Properties of the sort\<close>

lemma compareByDate_dateTime:
  "compareByDate D a b =
     (case (dateTime D a, dateTime D b) of (Some x, Some y) \<Rightarrow> x - y | _ \<Rightarrow> 0)"
  by (simp add: compareByDate_def dateTime_def split: option.splits)

lemma compareByDate_total: "compareByDate D a b \<le> 0 \<or> compareByDate D b a \<le> 0"
  by (auto simp: compareByDate_dateTime split: option.splits)

lemma mset_insertBy: "mset (insertBy cmp x ys) = add_mset x (mset ys)"
  by (induction ys) simp_all

lemma mset_sortBy: "mset (sortBy cmp xs) = mset xs"
  by (induction xs) (simp_all add: mset_insertBy)

lemma set_insertBy: "set (insertBy cmp x ys) = insert x (set ys)"
  by (induction ys) auto

lemma set_sortBy: "set (sortBy cmp xs) = set xs"
  by (induction xs) (simp_all add: set_insertBy)

lemma filter_insertBy:
  "(P x \<Longrightarrow> \<forall>y \<in> set ys. P y \<longrightarrow> cmp x y \<le> 0) \<Longrightarrow>
   filter P (insertBy cmp x ys) = filter P (x # ys)"
  by (induction ys) auto

lemma filter_sortBy:
  "\<forall>a \<in> set xs. \<forall>b \<in> set xs. P a \<and> P b \<longrightarrow> cmp a b \<le> 0 \<Longrightarrow>
   filter P (sortBy cmp xs) = filter P xs"
proof (induction xs)
  case Nil
  show ?case by simp
next
  case (Cons x xs)
  have "filter P (insertBy cmp x (sortBy cmp xs)) = filter P (x # sortBy cmp xs)"
    by (rule filter_insertBy) (use Cons.prems in \<open>simp add: set_sortBy\<close>)
  then show ?case using Cons by simp
qed

lemma sorted_insertBy:
  assumes "\<forall>y \<in> set ys. cmp x y = k x - k y"
    and "sorted_wrt (\<lambda>a b. k a \<le> k b) ys"
  shows "sorted_wrt (\<lambda>a b. (k a :: int) \<le> k b) (insertBy cmp x ys)"
  using assms by (induction ys) (auto simp: set_insertBy)

lemma sorted_sortBy:
  assumes "\<forall>a \<in> set xs. \<forall>b \<in> set xs. cmp a b = k a - k b"
  shows "sorted_wrt (\<lambda>a b. (k a :: int) \<le> k b) (sortBy cmp xs)"
  using assms
proof (induction xs)
  case Nil
  show ?case by simp
next
  case (Cons x xs)
  show ?case
    unfolding sortBy.simps
    by (rule sorted_insertBy) (use Cons in \<open>simp_all add: set_sortBy\<close>)
qed

lemma sortBy_id: "adjacentOk cmp xs \<Longrightarrow> sortBy cmp xs = xs"
  by (induction cmp xs rule: adjacentOk.induct) simp_all

lemma adjacentOk_insertBy:
  "\<forall>a b. cmp a b \<le> 0 \<or> cmp b a \<le> 0 \<Longrightarrow> adjacentOk cmp ys \<Longrightarrow>
   adjacentOk cmp (insertBy cmp x ys)"
proof (induction cmp ys rule: adjacentOk.induct)
  case (1 cmp)
  then show ?case by simp
next
  case (2 cmp y)
  then show ?case by auto
next
  case (3 cmp y z ys)
  then show ?case by auto
qed

lemma adjacentOk_sortBy:
  "\<forall>a b. cmp a b \<le> 0 \<or> cmp b a \<le> 0 \<Longrightarrow> adjacentOk cmp (sortBy cmp xs)"
  by (induction xs) (simp_all add: adjacentOk_insertBy)

lemma parseDate_dmy_first:
  "search dmyPattern None s = Some (m, g) \<Longrightarrow> s \<noteq> [] \<Longrightarrow>
   D (isoString (g ! 2) (g ! 1) (g ! 0)) = Some v \<Longrightarrow> parseDate D s = Some v"
  by (simp add: parseDate_def formats_def)

lemma parseDate_mdy_second:
  "search dmyPattern None s = Some (m, g) \<Longrightarrow> s \<noteq> [] \<Longrightarrow>
   D (isoString (g ! 2) (g ! 1) (g ! 0)) = None \<Longrightarrow>
   D (isoString (g ! 2) (g ! 0) (g ! 1)) = Some v \<Longrightarrow> parseDate D s = Some v"
  by (simp add: parseDate_def formats_def)

lemma parseDate_ymd_third:
  "search dmyPattern None s = None \<Longrightarrow> search ymdPattern None s = Some (m, g) \<Longrightarrow> s \<noteq> [] \<Longrightarrow>
   D (isoString (g ! 0) (g ! 1) (g ! 2)) = Some v \<Longrightarrow> parseDate D s = Some v"
  by (simp add: parseDate_def formats_def)

lemma parseDate_generic_last:
  "search dmyPattern None s = None \<Longrightarrow> search ymdPattern None s = None \<Longrightarrow> s \<noteq> [] \<Longrightarrow>
   parseDate D s = D s"
  by (simp add: parseDate_def formats_def)

lemma adjacentOk_equal: "\<forall>a \<in> set xs. \<forall>b \<in> set xs. cmp a b \<le> 0 \<Longrightarrow> adjacentOk cmp xs"
  by (induction cmp xs rule: adjacentOk.induct) simp_all

lemma sortBy_sort_key:
  fixes k :: "'a \<Rightarrow> int"
  assumes "\<forall>a \<in> set xs. \<forall>b \<in> set xs. cmp a b = k a - k b"
  shows "sortBy cmp xs = sort_key k xs"
proof (rule sym, rule properties_for_sort_key)
  show "mset (sortBy cmp xs) = mset xs" by (rule mset_sortBy)
next
  fix x
  show "filter (\<lambda>t. k x = k t) (sortBy cmp xs) = filter (\<lambda>t. k x = k t) xs"
    by (rule filter_sortBy) (use assms in simp)
next
  show "sorted (map k (sortBy cmp xs))"
    using sorted_sortBy [OF assms] by (simp add: sorted_map)
qed

lemma stable_sort_unique:
  fixes k :: "'a \<Rightarrow> int"
  assumes "\<forall>a \<in> set xs. \<forall>b \<in> set xs. cmp a b = k a - k b"
    and "mset ys = mset xs"
    and "sorted_wrt (\<lambda>a b. k a \<le> k b) ys"
    and "\<forall>x \<in> set xs. filter (\<lambda>t. k t = k x) ys = filter (\<lambda>t. k t = k x) xs"
  shows "ys = sortBy cmp xs"
proof -
  have "sort_key k xs = ys"
  proof (rule properties_for_sort_key)
    show "mset ys = mset xs" by (rule assms(2))
  next
    fix x
    assume "x \<in> set ys"
    then have "x \<in> set xs" using assms(2) by (metis set_mset_mset)
    then have "filter (\<lambda>t. k t = k x) ys = filter (\<lambda>t. k t = k x) xs"
      using assms(4) by blast
    moreover have "(\<lambda>t. k x = k t) = (\<lambda>t. k t = k x)" by auto
    ultimately show "filter (\<lambda>t. k x = k t) ys = filter (\<lambda>t. k x = k t) xs" by simp
  next
    show "sorted (map k ys)" using assms(3) by (simp add: sorted_map)
  qed
  then show ?thesis using sortBy_sort_key [OF assms(1)] by simp
qed

lemma parses_dateTime: "parses D t \<Longrightarrow> dateTime D t = Some (timeOf D t)"
  by (simp add: parses_def timeOf_def split: option.splits)

lemma compareByDate_parses:
  "\<forall>t \<in> set ts. parses D t \<Longrightarrow>
   \<forall>x \<in> set ts. \<forall>y \<in> set ts. compareByDate D x y = timeOf D x - timeOf D y"
  by (auto simp: compareByDate_dateTime timeOf_def parses_def split: option.splits)

lemma sortTransactionsByDate_determined:
  assumes p: "\<forall>t \<in> set ts. parses D t"
    and m: "mset ys = mset ts"
    and s: "sorted_wrt (\<lambda>x y. timeOf D x \<le> timeOf D y) ys"
    and f: "\<forall>u. filter (\<lambda>t. dateTime D t = Some u) ys = filter (\<lambda>t. dateTime D t = Some u) ts"
  shows "ys = sortTransactionsByDate D ts"
  unfolding sortTransactionsByDate_def
proof (rule stable_sort_unique [where k = "timeOf D"])
  show "\<forall>a \<in> set ts. \<forall>b \<in> set ts. compareByDate D a b = timeOf D a - timeOf D b"
    using p by (rule compareByDate_parses)
next
  show "mset ys = mset ts" by (rule m)
next
  show "sorted_wrt (\<lambda>a b. timeOf D a \<le> timeOf D b) ys" by (rule s)
next
  have e: "set ys = set ts" using m by (metis set_mset_mset)
  show "\<forall>x \<in> set ts. filter (\<lambda>t. timeOf D t = timeOf D x) ys
                       = filter (\<lambda>t. timeOf D t = timeOf D x) ts"
  proof
    fix x
    assume "x \<in> set ts"
    have a: "filter (\<lambda>t. timeOf D t = timeOf D x) ys
             = filter (\<lambda>t. dateTime D t = Some (timeOf D x)) ys"
      by (rule filter_cong) (use p e in \<open>auto simp: parses_dateTime\<close>)
    have b: "filter (\<lambda>t. timeOf D t = timeOf D x) ts
             = filter (\<lambda>t. dateTime D t = Some (timeOf D x)) ts"
      by (rule filter_cong) (use p in \<open>auto simp: parses_dateTime\<close>)
    show "filter (\<lambda>t. timeOf D t = timeOf D x) ys = filter (\<lambda>t. timeOf D t = timeOf D x) ts"
      using a b f by simp
  qed
qed

lemma sortTransactionsByDate_none:
  assumes "\<forall>t \<in> set ts. \<not> parses D t"
  shows "sortTransactionsByDate D ts = ts"
proof -
  have "\<forall>a \<in> set ts. \<forall>b \<in> set ts. compareByDate D a b \<le> 0"
    using assms by (auto simp: compareByDate_dateTime parses_def split: option.splits)
  then show ?thesis
    by (simp add: sortTransactionsByDate_def sortBy_id adjacentOk_equal)
qed

text \<open>
  C2, as the code has it. The sort returns a permutation of its input. When every record
  has a date that parses, the output is non-decreasing by parsed date and records with
  the same parsed date keep their input order; these properties leave one list only, so
  the result does not depend on how the engine sorts. The comparator returns equal as
  soon as either record has no date that parses; when no record has a date that parses,
  the list comes back in its input order. Nothing is said of the order of a list that
  mixes the two kinds of records: there the comparator is not a consistent order and the
  result is the engine's. A date string is tried as DD/MM/YYYY first, then as MM/DD/YYYY,
  then as YYYY/MM/DD, then handed to the engine's own parser.
\<close>

theorem sortTransactionsByDate_order:
  "mset (sortTransactionsByDate D ts) = mset ts
   \<and> ((\<forall>t \<in> set ts. parses D t) \<longrightarrow>
        sorted_wrt (\<lambda>x y. timeOf D x \<le> timeOf D y) (sortTransactionsByDate D ts)
        \<and> filter (\<lambda>t. dateTime D t = Some v) (sortTransactionsByDate D ts)
            = filter (\<lambda>t. dateTime D t = Some v) ts)
   \<and> ((\<forall>t \<in> set ts. parses D t) \<and> mset ys = mset ts
        \<and> sorted_wrt (\<lambda>x y. timeOf D x \<le> timeOf D y) ys
        \<and> (\<forall>u. filter (\<lambda>t. dateTime D t = Some u) ys = filter (\<lambda>t. dateTime D t = Some u) ts)
        \<longrightarrow> ys = sortTransactionsByDate D ts)
   \<and> (\<not> parses D a \<or> \<not> parses D b \<longrightarrow> compareByDate D a b = 0)
   \<and> ((\<forall>t \<in> set ts. \<not> parses D t) \<longrightarrow> sortTransactionsByDate D ts = ts)
   \<and> (s \<noteq> [] \<and> search dmyPattern None s = Some (m, g)
        \<and> D (isoString (g ! 2) (g ! 1) (g ! 0)) = Some w \<longrightarrow> parseDate D s = Some w)
   \<and> (s \<noteq> [] \<and> search dmyPattern None s = Some (m, g)
        \<and> D (isoString (g ! 2) (g ! 1) (g ! 0)) = None
        \<and> D (isoString (g ! 2) (g ! 0) (g ! 1)) = Some w \<longrightarrow> parseDate D s = Some w)
   \<and> (s \<noteq> [] \<and> search dmyPattern None s = None \<and> search ymdPattern None s = Some (m, g)
        \<and> D (isoString (g ! 0) (g ! 1) (g ! 2)) = Some w \<longrightarrow> parseDate D s = Some w)
   \<and> (s \<noteq> [] \<and> search dmyPattern None s = None \<and> search ymdPattern None s = None
        \<longrightarrow> parseDate D s = D s)"
proof -
  have perm: "mset (sortTransactionsByDate D ts) = mset ts"
    by (simp add: sortTransactionsByDate_def mset_sortBy)
  have sorted: "sorted_wrt (\<lambda>x y. timeOf D x \<le> timeOf D y) (sortTransactionsByDate D ts)"
    if "\<forall>t \<in> set ts. parses D t"
    unfolding sortTransactionsByDate_def
    by (rule sorted_sortBy) (use that in \<open>rule compareByDate_parses\<close>)
  have same: "filter (\<lambda>t. dateTime D t = Some v) (sortTransactionsByDate D ts)
       = filter (\<lambda>t. dateTime D t = Some v) ts"
    unfolding sortTransactionsByDate_def
    by (rule filter_sortBy) (simp add: compareByDate_dateTime)
  have equal: "compareByDate D a b = 0" if "\<not> parses D a \<or> \<not> parses D b"
    using that by (auto simp: compareByDate_dateTime parses_def split: option.splits)
  show ?thesis
    using perm sorted same equal
      sortTransactionsByDate_determined [of ts D ys] sortTransactionsByDate_none [of ts D]
      parseDate_dmy_first [of s m g D w] parseDate_mdy_second [of s m g D w]
      parseDate_ymd_third [of s m g D w] parseDate_generic_last [of s D]
    by blast
qed

theorem sortTransactionsByDate_order_witness:
  "parses isoDate (dated ''01/03/2024'' ''A'') \<and> parses isoDate (dated ''01/01/2024'' ''B'')
   \<and> sorted_wrt (\<lambda>x y. timeOf isoDate x \<le> timeOf isoDate y)
        (sortTransactionsByDate isoDate [dated ''01/03/2024'' ''A'', dated ''01/01/2024'' ''B''])
   \<and> sortTransactionsByDate isoDate [dated ''01/03/2024'' ''A'', dated ''01/01/2024'' ''B'']
      = [dated ''01/01/2024'' ''B'', dated ''01/03/2024'' ''A'']
   \<and> \<not> parses isoDate (dated ''15/04/24'' ''U'') \<and> \<not> parses isoDate (dated ''n/a'' ''V'')
   \<and> compareByDate isoDate (dated ''15/04/24'' ''U'') (dated ''01/01/2024'' ''B'') = 0
   \<and> sortTransactionsByDate isoDate [dated ''15/04/24'' ''U'', dated ''n/a'' ''V'']
      = [dated ''15/04/24'' ''U'', dated ''n/a'' ''V'']
   \<and> parseDate isoDate ''03/04/2024'' = Some 1712102400000
   \<and> parseDate isoDate ''04/15/2024'' = Some 1713139200000
   \<and> parseDate isoDate ''2024/04/15'' = Some 1713139200000
   \<and> parseDate isoDate ''15 Apr 2024'' = isoDate ''15 Apr 2024''"
proof -
  let ?A = "dated ''01/03/2024'' ''A''"
  let ?B = "dated ''01/01/2024'' ''B''"
  let ?U = "dated ''15/04/24'' ''U''"
  let ?V = "dated ''n/a'' ''V''"
  let ?ts = "[?A, ?B]"
  have pA: "parses isoDate ?A" by code_simp
  have pB: "parses isoDate ?B" by code_simp
  have h1: "\<forall>t \<in> set ?ts. parses isoDate t" using pA pB by simp
  have h2: "\<not> parses isoDate ?U" by code_simp
  have h3: "\<not> parses isoDate ?V" by code_simp
  have h4: "\<forall>t \<in> set [?U, ?V]. \<not> parses isoDate t" using h2 h3 by simp
  have tA: "dateTime isoDate ?A = Some 1709251200000" by code_simp
  have tB: "dateTime isoDate ?B = Some 1704067200000" by code_simp
  have ne: "?A \<noteq> ?B" by (simp add: dated_def emptyTxn_def)
  have h5: "mset [?B, ?A] = mset ?ts" by simp
  have h6: "sorted_wrt (\<lambda>x y. timeOf isoDate x \<le> timeOf isoDate y) [?B, ?A]"
    using tA tB by (simp add: timeOf_def)
  have h7: "\<forall>u. filter (\<lambda>t. dateTime isoDate t = Some u) [?B, ?A]
                = filter (\<lambda>t. dateTime isoDate t = Some u) ?ts"
    using tA tB by simp
  have d1: "''03/04/2024'' \<noteq> [] \<and> search dmyPattern None ''03/04/2024''
              = Some (''03/04/2024'', [''03'', ''04'', ''2024''])
            \<and> isoDate (isoString ''2024'' ''04'' ''03'') = Some 1712102400000" by code_simp
  have d2: "''04/15/2024'' \<noteq> [] \<and> search dmyPattern None ''04/15/2024''
              = Some (''04/15/2024'', [''04'', ''15'', ''2024''])
            \<and> isoDate (isoString ''2024'' ''15'' ''04'') = None
            \<and> isoDate (isoString ''2024'' ''04'' ''15'') = Some 1713139200000" by code_simp
  have d3: "''2024/04/15'' \<noteq> [] \<and> search dmyPattern None ''2024/04/15'' = None
            \<and> search ymdPattern None ''2024/04/15''
              = Some (''2024/04/15'', [''2024'', ''04'', ''15''])
            \<and> isoDate (isoString ''2024'' ''04'' ''15'') = Some 1713139200000" by code_simp
  have d4: "''15 Apr 2024'' \<noteq> [] \<and> search dmyPattern None ''15 Apr 2024'' = None
            \<and> search ymdPattern None ''15 Apr 2024'' = None" by code_simp
  have a: "sorted_wrt (\<lambda>x y. timeOf isoDate x \<le> timeOf isoDate y) (sortTransactionsByDate isoDate ?ts)
           \<and> [?B, ?A] = sortTransactionsByDate isoDate ?ts
           \<and> compareByDate isoDate ?U ?B = 0
           \<and> parseDate isoDate ''03/04/2024'' = Some 1712102400000"
    using sortTransactionsByDate_order [of isoDate ?ts 0 "[?B, ?A]" ?U ?B
        "''03/04/2024''" "''03/04/2024''" "[''03'', ''04'', ''2024'']" 1712102400000]
      h1 h2 h5 h6 h7 d1
    by simp
  have n: "sortTransactionsByDate isoDate [?U, ?V] = [?U, ?V]"
    using sortTransactionsByDate_order [of isoDate "[?U, ?V]" 0 "[]" ?U ?B
        "''15 Apr 2024''" "[]" "[]" 0] h4
    by simp
  have b: "parseDate isoDate ''04/15/2024'' = Some 1713139200000"
    using sortTransactionsByDate_order [of isoDate ?ts 0 "[]" ?U ?B
        "''04/15/2024''" "''04/15/2024''" "[''04'', ''15'', ''2024'']" 1713139200000] d2
    by simp
  have c: "parseDate isoDate ''2024/04/15'' = Some 1713139200000"
    using sortTransactionsByDate_order [of isoDate ?ts 0 "[]" ?U ?B
        "''2024/04/15''" "''2024/04/15''" "[''2024'', ''04'', ''15'']" 1713139200000] d3
    by simp
  have d: "parseDate isoDate ''15 Apr 2024'' = isoDate ''15 Apr 2024''"
    using sortTransactionsByDate_order [of isoDate ?ts 0 "[]" ?U ?B
        "''15 Apr 2024''" "[]" "[]" 0] d4
    by simp
  show ?thesis using pA pB h2 h3 a n b c d by metis
qed

lemma three_in_order:
  assumes m: "mset ys = mset [a, u, b]"
    and d: "a \<noteq> u" "u \<noteq> b" "a \<noteq> b"
    and f: "filter (\<lambda>t. t = a \<or> t = u) ys = [a, u]"
    and g: "filter (\<lambda>t. t = u \<or> t = b) ys = [u, b]"
  shows "ys = [a, u, b]"
proof -
  have "length ys = 3" using m by (metis length_Cons list.size(3) mset_eq_length numeral_3_eq_3)
  then obtain x y z where ys: "ys = [x, y, z]"
    by (metis length_0_conv length_Suc_conv numeral_3_eq_3)
  have s: "set ys = {a, u, b}" using m by (metis list.simps(15) empty_set set_mset_mset)
  have x: "x = a \<or> x = u \<or> x = b" and y: "y = a \<or> y = u \<or> y = b"
    and z: "z = a \<or> z = u \<or> z = b"
    using s ys by auto
  have dy: "distinct ys" using m d by (metis distinct.simps(2) distinct_singleton empty_iff empty_set insert_iff list.simps(15) mset_eq_imp_distinct_iff)
  show ?thesis
    using x y z f g d dy unfolding ys by (auto split: if_splits)
qed

text \<open>
  C2 as stated asks for both at once: the records whose date parses in non-decreasing
  order, and every pair with a date that does not parse in its input order. For March,
  then a record whose date does not parse, then January, no order of the three does
  both; the sort leaves them as they are, March before January.
\<close>

theorem sortTransactionsByDate_mixed_counterexample:
  "sortTransactionsByDate isoDate
     [dated ''01/03/2024'' ''A'', dated ''15/04/24'' ''U'', dated ''01/01/2024'' ''B'']
   = [dated ''01/03/2024'' ''A'', dated ''15/04/24'' ''U'', dated ''01/01/2024'' ''B'']
   \<and> filter (parses isoDate)
        (sortTransactionsByDate isoDate
          [dated ''01/03/2024'' ''A'', dated ''15/04/24'' ''U'', dated ''01/01/2024'' ''B''])
      = [dated ''01/03/2024'' ''A'', dated ''01/01/2024'' ''B'']
   \<and> timeOf isoDate (dated ''01/01/2024'' ''B'') < timeOf isoDate (dated ''01/03/2024'' ''A'')
   \<and> \<not> sorted_wrt (\<lambda>x y. timeOf isoDate x \<le> timeOf isoDate y)
        (filter (parses isoDate)
          (sortTransactionsByDate isoDate
            [dated ''01/03/2024'' ''A'', dated ''15/04/24'' ''U'', dated ''01/01/2024'' ''B'']))
   \<and> \<not> (\<exists>ys. mset ys
              = mset [dated ''01/03/2024'' ''A'', dated ''15/04/24'' ''U'', dated ''01/01/2024'' ''B'']
          \<and> sorted_wrt (\<lambda>x y. timeOf isoDate x \<le> timeOf isoDate y) (filter (parses isoDate) ys)
          \<and> filter (\<lambda>t. t = dated ''01/03/2024'' ''A'' \<or> t = dated ''15/04/24'' ''U'') ys
            = [dated ''01/03/2024'' ''A'', dated ''15/04/24'' ''U'']
          \<and> filter (\<lambda>t. t = dated ''15/04/24'' ''U'' \<or> t = dated ''01/01/2024'' ''B'') ys
            = [dated ''15/04/24'' ''U'', dated ''01/01/2024'' ''B''])"
proof -
  let ?A = "dated ''01/03/2024'' ''A''"
  let ?U = "dated ''15/04/24'' ''U''"
  let ?B = "dated ''01/01/2024'' ''B''"
  have run: "sortTransactionsByDate isoDate [?A, ?U, ?B] = [?A, ?U, ?B]
     \<and> filter (parses isoDate) (sortTransactionsByDate isoDate [?A, ?U, ?B]) = [?A, ?B]
     \<and> timeOf isoDate ?B < timeOf isoDate ?A
     \<and> \<not> sorted_wrt (\<lambda>x y. timeOf isoDate x \<le> timeOf isoDate y)
          (filter (parses isoDate) (sortTransactionsByDate isoDate [?A, ?U, ?B]))"
    by code_simp
  have none: "\<not> (\<exists>ys. mset ys = mset [?A, ?U, ?B]
          \<and> sorted_wrt (\<lambda>x y. timeOf isoDate x \<le> timeOf isoDate y) (filter (parses isoDate) ys)
          \<and> filter (\<lambda>t. t = ?A \<or> t = ?U) ys = [?A, ?U]
          \<and> filter (\<lambda>t. t = ?U \<or> t = ?B) ys = [?U, ?B])"
  proof
    assume "\<exists>ys. mset ys = mset [?A, ?U, ?B]
          \<and> sorted_wrt (\<lambda>x y. timeOf isoDate x \<le> timeOf isoDate y) (filter (parses isoDate) ys)
          \<and> filter (\<lambda>t. t = ?A \<or> t = ?U) ys = [?A, ?U]
          \<and> filter (\<lambda>t. t = ?U \<or> t = ?B) ys = [?U, ?B]"
    then obtain ys where m: "mset ys = mset [?A, ?U, ?B]"
      and s: "sorted_wrt (\<lambda>x y. timeOf isoDate x \<le> timeOf isoDate y) (filter (parses isoDate) ys)"
      and f: "filter (\<lambda>t. t = ?A \<or> t = ?U) ys = [?A, ?U]"
      and g: "filter (\<lambda>t. t = ?U \<or> t = ?B) ys = [?U, ?B]"
      by blast
    have d: "?A \<noteq> ?U" "?U \<noteq> ?B" "?A \<noteq> ?B" by (simp_all add: dated_def emptyTxn_def)
    have y: "ys = [?A, ?U, ?B]" using m d f g by (rule three_in_order)
    have r: "sortTransactionsByDate isoDate [?A, ?U, ?B] = [?A, ?U, ?B]"
      using run by (rule conjunct1)
    have e: "ys = sortTransactionsByDate isoDate [?A, ?U, ?B]"
      unfolding r by (rule y)
    have n: "\<not> sorted_wrt (\<lambda>x y. timeOf isoDate x \<le> timeOf isoDate y)
                 (filter (parses isoDate) (sortTransactionsByDate isoDate [?A, ?U, ?B]))"
      using run by blast
    show False using n s unfolding e by (rule notE)
  qed
  show ?thesis using run none by blast
qed

section \<open>Properties of the post-processor\<close>

lemma duplicateFree_sortBy: "duplicateFree (sortBy cmp ts) = duplicateFree ts"
proof -
  have "mset (map dedupKey (sortBy cmp ts)) = mset (map dedupKey ts)"
    by (simp add: mset_sortBy)
  then show ?thesis
    unfolding duplicateFree_def by (rule mset_eq_imp_distinct_iff)
qed

lemma postProcess_fixed:
  "duplicateFree ts \<Longrightarrow> dateSorted D ts \<Longrightarrow> postProcess D ts = ts"
  by (simp add: postProcess_def duplicateFree_def dateSorted_def sortTransactionsByDate_def
      removeDuplicateTransactions_id sortBy_id)

lemma postProcess_clean: "duplicateFree (postProcess D ts) \<and> dateSorted D (postProcess D ts)"
proof -
  have "duplicateFree (removeDuplicateTransactions ts)"
    by (simp add: duplicateFree_def distinct_keys_removeDuplicateTransactions)
  then have "duplicateFree (postProcess D ts)"
    by (simp add: postProcess_def sortTransactionsByDate_def duplicateFree_sortBy)
  moreover have "dateSorted D (postProcess D ts)"
    unfolding dateSorted_def postProcess_def sortTransactionsByDate_def
    by (rule adjacentOk_sortBy) (simp add: compareByDate_total)
  ultimately show ?thesis by simp
qed

text \<open>
  C4. A list that has no two records of the same deduplication key and in which the
  comparator puts no record strictly after its successor is left as it is by the
  post-processor (deduplicate, then sort): nothing is removed and nothing moves. The
  output of the post-processor is always such a list, so running it a second time changes
  nothing.
\<close>

theorem postProcess_noop:
  "(duplicateFree ts \<and> dateSorted D ts \<longrightarrow> postProcess D ts = ts)
   \<and> duplicateFree (postProcess D ts) \<and> dateSorted D (postProcess D ts)
   \<and> postProcess D (postProcess D ts) = postProcess D ts"
  using postProcess_fixed [of ts D] postProcess_clean [of D ts]
    postProcess_fixed [of "postProcess D ts" D]
  by blast

theorem postProcess_noop_witness:
  "duplicateFree [dated ''01/01/2024'' ''B'', dated ''15/04/24'' ''U'', dated ''01/03/2024'' ''A'']
   \<and> dateSorted isoDate
        [dated ''01/01/2024'' ''B'', dated ''15/04/24'' ''U'', dated ''01/03/2024'' ''A'']
   \<and> postProcess isoDate
        [dated ''01/01/2024'' ''B'', dated ''15/04/24'' ''U'', dated ''01/03/2024'' ''A'']
      = [dated ''01/01/2024'' ''B'', dated ''15/04/24'' ''U'', dated ''01/03/2024'' ''A'']"
proof -
  let ?ts = "[dated ''01/01/2024'' ''B'', dated ''15/04/24'' ''U'', dated ''01/03/2024'' ''A'']"
  have h: "duplicateFree ?ts \<and> dateSorted isoDate ?ts" by code_simp
  show ?thesis using postProcess_noop [of ?ts isoDate] h by blast
qed

section \<open>Properties of the line parser\<close>

lemma numKeys_tag: "0 < numKeys (t\<lparr>Description := Some x\<rparr>)"
  by (simp add: numKeys_def)

lemma numKeys_extractTransactionFromLine: "0 < numKeys (extractTransactionFromLine line)"
  by (simp add: extractTransactionFromLine_def numKeys_tag split: prod.splits)

lemma linesLoop_no_raise:
  "\<forall>l \<in> set ls. isCandidate l \<longrightarrow> \<not> isl (ext l) \<Longrightarrow>
   linesLoop ext p ls acc =
     Inr (acc @ map (\<lambda>l. (projr (ext l))\<lparr>Page := Some p\<rparr>)
                    (filter (\<lambda>l. isCandidate l \<and> 0 < numKeys (projr (ext l))) ls))"
proof (induction ls arbitrary: acc)
  case Nil
  show ?case by simp
next
  case (Cons l ls)
  then show ?case by (cases "ext l") auto
qed

lemma linesLoop_raise:
  "\<exists>l \<in> set ls. isCandidate l \<and> isl (ext l) \<Longrightarrow> \<exists>e. linesLoop ext p ls acc = Inl e"
proof (induction ls arbitrary: acc)
  case Nil
  then show ?case by simp
next
  case (Cons l ls)
  then show ?case by (cases "ext l") auto
qed

lemma extractTableDataFromText_lines:
  "extractTableDataFromText text pageNum = map (tagged pageNum) (filter isCandidate (pageLines text))"
proof -
  have "linesLoop (\<lambda>line. Inr (extractTransactionFromLine line)) pageNum (pageLines text) [] =
        Inr ([] @ map (\<lambda>l. (projr (Inr (extractTransactionFromLine l) :: exn + txn))\<lparr>Page := Some pageNum\<rparr>)
               (filter (\<lambda>l. isCandidate l
                  \<and> 0 < numKeys (projr (Inr (extractTransactionFromLine l) :: exn + txn)))
                  (pageLines text)))"
    by (rule linesLoop_no_raise) simp
  then show ?thesis
    by (simp add: extractTableDataFromText_def extractTableDataFromText_with_def
        numKeys_extractTransactionFromLine tagged_def)
qed

lemma extractTableDataFromText_with_raise:
  "\<exists>l \<in> set (pageLines text). isCandidate l \<and> isl (ext l) \<Longrightarrow>
   extractTableDataFromText_with ext text pageNum = []"
  using linesLoop_raise [of "pageLines text" ext pageNum "[]"]
  by (auto simp: extractTableDataFromText_with_def)

lemma extractTableDataFromText_with_no_raise:
  "\<forall>l \<in> set (pageLines text). isCandidate l \<longrightarrow> \<not> isl (ext l) \<Longrightarrow>
   extractTableDataFromText_with ext text pageNum =
     map (\<lambda>l. (projr (ext l))\<lparr>Page := Some pageNum\<rparr>)
         (filter (\<lambda>l. isCandidate l \<and> 0 < numKeys (projr (ext l))) (pageLines text))"
  using linesLoop_no_raise [of "pageLines text" ext pageNum "[]"]
  by (simp add: extractTableDataFromText_with_def)

lemma splitOn_nonempty: "splitOn c s \<noteq> []"
  by (induction s) (auto split: list.splits)

lemma splitOn_Cons_sep: "splitOn c (c # s) = [] # splitOn c s"
  using splitOn_nonempty [of c s] by (cases "splitOn c s") simp_all

lemma splitOn_Cons_other:
  "x \<noteq> c \<Longrightarrow> splitOn c (x # s) = (x # hd (splitOn c s)) # tl (splitOn c s)"
  using splitOn_nonempty [of c s] by (cases "splitOn c s") simp_all

lemma splitOn_append: "splitOn c (a @ c # b) = splitOn c a @ splitOn c b"
proof (induction a)
  case Nil
  show ?case by (simp add: splitOn_Cons_sep del: splitOn.simps(2))
next
  case (Cons x a)
  show ?case
  proof (cases "x = c")
    case True
    then show ?thesis using Cons by (simp add: splitOn_Cons_sep del: splitOn.simps(2))
  next
    case False
    have ne: "splitOn c a \<noteq> []" by (rule splitOn_nonempty)
    have "splitOn c ((x # a) @ c # b) = (x # hd (splitOn c (a @ c # b))) # tl (splitOn c (a @ c # b))"
      using False by (simp add: splitOn_Cons_other del: splitOn.simps(2))
    also have "\<dots> = (x # hd (splitOn c a)) # tl (splitOn c a) @ splitOn c b"
      using ne by (simp add: Cons)
    also have "\<dots> = splitOn c (x # a) @ splitOn c b"
      using False by (simp add: splitOn_Cons_other del: splitOn.simps(2))
    finally show ?thesis .
  qed
qed

lemma pageLines_append: "pageLines (a @ CHR 0x0A # b) = pageLines a @ pageLines b"
  by (simp add: pageLines_def splitOn_append)







section \<open>Matches of the amount pattern\<close>

lemma ends_sound:
  "st' \<in> set (ends r st) \<Longrightarrow> \<exists>m. rest st = m @ rest st' \<and> matches r m"
proof (induction r st arbitrary: st' rule: ends.induct)
  case (1 P st)
  show ?case
  proof (cases "rest st")
    case Nil
    then show ?thesis using "1.prems" by simp
  next
    case (Cons c cs)
    then have pc: "P c" and st': "st' = (Some c, cs, snd (snd st))"
      using "1.prems" by (simp_all split: if_splits)
    have "rest st = [c] @ rest st'" using Cons st' by (simp add: rest_def)
    moreover have "matches (Chr P) [c]" using pc by (rule mChr)
    ultimately show ?thesis by blast
  qed
next
  case (2 a b st)
  from "2.prems" obtain mid where mid: "mid \<in> set (ends a st)" and st': "st' \<in> set (ends b mid)"
    by auto
  from "2.IH"(1) [OF mid] obtain m1 where m1: "rest st = m1 @ rest mid" "matches a m1" by blast
  from "2.IH"(2) [OF mid st'] obtain m2 where m2: "rest mid = m2 @ rest st'" "matches b m2" by blast
  have "rest st = (m1 @ m2) @ rest st'" using m1 m2 by simp
  moreover have "matches (Seq a b) (m1 @ m2)" using m1 m2 by (simp add: mSeq)
  ultimately show ?case by blast
next
  case (3 a b st)
  from "3.prems" consider "st' \<in> set (ends a st)" | "st' \<in> set (ends b st)" by auto
  then show ?case
  proof cases
    case 1
    from "3.IH"(1) [OF 1] obtain m where "rest st = m @ rest st'" "matches a m" by blast
    then show ?thesis using mAltL by blast
  next
    case 2
    from "3.IH"(2) [OF 2] obtain m where "rest st = m @ rest st'" "matches b m" by blast
    then show ?thesis using mAltR by blast
  qed
next
  case (4 a st)
  from "4.prems" consider "st' \<in> set (ends a st)" | "st' = st" by auto
  then show ?case
  proof cases
    case 1
    from "4.IH" [OF 1] obtain m where "rest st = m @ rest st'" "matches a m" by blast
    then show ?thesis using mOptSome by blast
  next
    case 2
    have "rest st = [] @ rest st'" using 2 by simp
    then show ?thesis using mOptNone by blast
  qed
next
  case (5 a st)
  show ?case
  proof (cases "st' = st")
    case True
    have "rest st = [] @ rest st'" using True by simp
    then show ?thesis using mStarNil by blast
  next
    case False
    have "st' \<in> set (concat (map (\<lambda>x. if length (rest x) < length (rest st)
                                         then ends (Star a) x else []) (ends a st)) @ [st])"
      using "5.prems" by (simp only: ends.simps(5) [of a st])
    with False obtain mid where mid: "mid \<in> set (ends a st)"
      and lt: "length (rest mid) < length (rest st)" and st': "st' \<in> set (ends (Star a) mid)"
      by (auto split: if_splits)
    from "5.IH"(1) [OF mid] obtain m1 where m1: "rest st = m1 @ rest mid" "matches a m1" by blast
    from "5.IH"(2) [OF mid lt st'] obtain m2 where
      m2: "rest mid = m2 @ rest st'" "matches (Star a) m2" by blast
    have "rest st = (m1 @ m2) @ rest st'" using m1 m2 by simp
    moreover have "matches (Star a) (m1 @ m2)" using m1 m2 by (simp add: mStarCons)
    ultimately show ?thesis by blast
  qed
next
  case (6 a st)
  from "6.prems" obtain x where x: "x \<in> set (ends a st)" and r: "rest st' = rest x"
    by (auto simp: rest_def)
  from "6.IH" [OF x] obtain m where "rest st = m @ rest x" "matches a m" by blast
  then have "rest st = m @ rest st'" "matches (Grp a) m" using r by (simp_all add: mGrp)
  then show ?case by blast
next
  case (7 st)
  then have "rest st = [] @ rest st'" by simp
  then show ?case using mEps by blast
next
  case (8 st)
  then have "rest st = [] @ rest st'" by (simp split: if_splits)
  then show ?case using mWordB by blast
next
  case (9 st)
  then have "rest st = [] @ rest st'" by (simp split: if_splits)
  then show ?case using mBos by blast
next
  case (10 st)
  then have "rest st = [] @ rest st'" by (simp split: if_splits)
  then show ?case using mEos by blast
qed

lemma matchHere_sound: "matchHere r p s = Some mg \<Longrightarrow> matches r (fst mg)"
proof -
  assume a: "matchHere r p s = Some mg"
  then obtain st sts where e: "ends r (p, s, []) = st # sts"
    and mg: "mg = (take (length s - length (rest st)) s, snd (snd st))"
    by (auto simp: matchHere_def split: list.splits)
  have "st \<in> set (ends r (p, s, []))" using e by simp
  from ends_sound [OF this] obtain m where m: "s = m @ rest st" "matches r m"
    by (auto simp: rest_def)
  have "length s = length m + length (rest st)" using m(1) by simp
  then have l: "length s - length (rest st) = length m" by simp
  have "take (length m) (m @ rest st) = m" by simp
  then have "take (length s - length (rest st)) s = m" using l m(1) by simp
  then show ?thesis using mg m(2) by simp
qed

lemma matchAllFrom_sound: "m \<in> set (matchAllFrom r k p s) \<Longrightarrow> matches r m"
proof (induction s arbitrary: k p)
  case Nil
  show ?case
  proof (cases "matchHere r p []")
    case None
    have False using None Nil.prems by (cases "k = 0") simp_all
    then show ?thesis by simp
  next
    case (Some mg)
    have "m = fst mg" using Some Nil.prems by (cases "k = 0") simp_all
    then show ?thesis using Some matchHere_sound by blast
  qed
next
  case (Cons c cs)
  show ?case
  proof (cases "0 < k")
    case True
    then have "m \<in> set (matchAllFrom r (k - 1) (Some c) cs)" using Cons.prems by simp
    then show ?thesis by (rule Cons.IH)
  next
    case False
    show ?thesis
    proof (cases "matchHere r p (c # cs)")
      case None
      then have "m \<in> set (matchAllFrom r 0 (Some c) cs)" using Cons.prems False by simp
      then show ?thesis by (rule Cons.IH)
    next
      case (Some mg)
      then consider "m = fst mg" | "m \<in> set (matchAllFrom r (length (fst mg) - 1) (Some c) cs)"
        using Cons.prems False by auto
      then show ?thesis
      proof cases
        case 1
        then show ?thesis using Some matchHere_sound by blast
      next
        case 2
        then show ?thesis by (rule Cons.IH)
      qed
    qed
  qed
qed

lemma matchAll_sound: "m \<in> set (matchAll r s) \<Longrightarrow> matches r m"
  by (simp add: matchAll_def matchAllFrom_sound)

inductive_cases matches_ChrE: "matches (Chr P) m"
inductive_cases matches_SeqE: "matches (Seq a b) m"
inductive_cases matches_OptE: "matches (Opt a) m"
inductive_cases matches_GrpE: "matches (Grp a) m"
inductive_cases matches_EpsE: "matches Eps m"

lemma matches_Star_Chr: "matches r m \<Longrightarrow> r = Star (Chr P) \<Longrightarrow> \<forall>c \<in> set m. P c"
  by (induction r m rule: matches.induct) (auto elim: matches_ChrE)

lemma count_none: "\<forall>c \<in> set m. P c \<Longrightarrow> \<not> P x \<Longrightarrow> count_list m x = 0"
  by (auto simp: count_list_0_iff)

lemma count_amount: "matches (Grp amountPattern) m \<Longrightarrow> count_list m CHR ''-'' \<le> 1"
proof -
  assume "matches (Grp amountPattern) m"
  then have "matches amountPattern m" by (rule matches_GrpE)
  then obtain m1 m2 m3 m4 m5 m6 m7 m8 where m: "m = m1 @ m2 @ m3 @ (m4 @ m5) @ m6 @ m7 @ m8"
    and m1: "matches (Opt (lit CHR ''$'')) m1"
    and m2: "matches (Star (Chr isSpace)) m2"
    and m3: "matches (Opt (lit CHR ''-'')) m3"
    and m4: "matches (Chr (\<lambda>c. isDigit c \<or> c = CHR '','')) m4"
    and m5: "matches (Star (Chr (\<lambda>c. isDigit c \<or> c = CHR '','')))  m5"
    and m6: "matches (lit CHR ''.'') m6"
    and m7: "matches digit m7" and m8: "matches digit m8"
    unfolding amountPattern_def oneOrMore_def
    by (auto simp: numeral_2_eq_2 elim!: matches_SeqE matches_EpsE)
  have sp: "\<not> isSpace CHR ''-''" by code_simp
  have dg: "\<not> (isDigit CHR ''-'' \<or> CHR ''-'' = CHR '','')" by code_simp
  have c1: "count_list m1 CHR ''-'' = 0"
    using m1 by (auto simp: lit_def elim!: matches_OptE matches_ChrE)
  have c2: "count_list m2 CHR ''-'' = 0"
    by (rule count_none [OF matches_Star_Chr [OF m2 refl] sp])
  have c3: "count_list m3 CHR ''-'' \<le> 1"
    using m3 by (auto simp: lit_def elim!: matches_OptE matches_ChrE)
  have c4: "count_list m4 CHR ''-'' = 0"
    using m4 dg by (auto elim!: matches_ChrE)
  have c5: "count_list m5 CHR ''-'' = 0"
    by (rule count_none [OF matches_Star_Chr [OF m5 refl] dg])
  have c6: "count_list m6 CHR ''-'' = 0"
    using m6 by (auto simp: lit_def elim!: matches_ChrE)
  have c7: "count_list m7 CHR ''-'' = 0" "count_list m8 CHR ''-'' = 0"
    using m7 m8 dg by (auto simp: digit_def elim!: matches_ChrE)
  show ?thesis using c1 c2 c3 c4 c5 c6 c7 by (simp add: m)
qed

lemma count_dropWhile: "count_list (dropWhile P xs) c \<le> count_list xs c"
  by (induction xs) simp_all

lemma count_trim: "count_list (trim s) c \<le> count_list s c"
proof -
  have a: "count_list (dropWhile isSpace (rev (dropWhile isSpace s))) c
           \<le> count_list (rev (dropWhile isSpace s)) c"
    by (rule count_dropWhile)
  have b: "count_list (dropWhile isSpace s) c \<le> count_list s c"
    by (rule count_dropWhile)
  show ?thesis using a b by (simp add: trim_def)
qed

lemma includesStr_single: "includesStr s [c] \<longleftrightarrow> c \<in> set s"
proof (induction s)
  case Nil
  show ?case by simp
next
  case (Cons x xs)
  then show ?case by auto
qed

lemma replaceFirst_single: "replaceFirst s [c] [] = remove1 c s"
proof (induction s)
  case Nil
  show ?case by simp
next
  case (Cons x xs)
  then show ?case by auto
qed

lemma replaceFirst_absent: "\<not> includesStr s [c] \<Longrightarrow> replaceFirst s [c] [] = s"
  by (simp add: includesStr_single replaceFirst_single remove1_idem)

lemma remove1_last_occurrence: "count_list s c \<le> 1 \<Longrightarrow> c \<notin> set (remove1 c s)"
proof (induction s)
  case Nil
  show ?case by simp
next
  case (Cons x xs)
  then show ?case by (auto simp: count_list_0_iff)
qed

lemma amount_match_stripped:
  assumes "i < length (matchAll (Grp amountPattern) line)"
  shows "CHR ''-'' \<notin> set (replaceFirst (trim (matchAll (Grp amountPattern) line ! i)) ''-'' [])"
proof -
  have "matches (Grp amountPattern) (matchAll (Grp amountPattern) line ! i)"
    by (rule matchAll_sound [of _ _ line]) (use assms in simp)
  then have "count_list (matchAll (Grp amountPattern) line ! i) CHR ''-'' \<le> 1"
    by (rule count_amount)
  then have "count_list (trim (matchAll (Grp amountPattern) line ! i)) CHR ''-'' \<le> 1"
    using count_trim [of "matchAll (Grp amountPattern) line ! i" "CHR ''-''"] by linarith
  then show ?thesis by (simp add: replaceFirst_single remove1_last_occurrence)
qed

lemma extractDate_fields:
  "Debit (fst (extractDate line)) = None \<and> Credit (fst (extractDate line)) = None"
  by (simp add: extractDate_def emptyTxn_def split: option.splits)

lemma extractTransactionFromLine_fields:
  "Balance (extractTransactionFromLine line) = Balance (fst (extractAmounts (snd (extractDate line)) (fst (extractDate line))))
   \<and> Debit (extractTransactionFromLine line) = Debit (fst (extractAmounts (snd (extractDate line)) (fst (extractDate line))))
   \<and> Credit (extractTransactionFromLine line) = Credit (fst (extractAmounts (snd (extractDate line)) (fst (extractDate line))))"
  by (simp add: extractTransactionFromLine_def split: prod.splits)

text \<open>
  C10. On a line with at least two amount matches, the last match, trimmed, is the Balance
  as it was matched. When the second-to-last match, trimmed, contains a minus sign, the
  Debit is that text with the minus sign removed (the pattern allows one minus sign, so
  none is left) and no Credit is set. When it has no minus sign, it is emitted as it was
  matched: as the Credit when the line does not contain \<open>debit\<close>, as the Debit when it does.
\<close>

theorem extractTransactionFromLine_debit_sign:
  assumes "amountMatches = matchAll (Grp amountPattern) (snd (extractDate line))"
    and "2 \<le> length amountMatches"
    and "amount = trim (amountMatches ! (length amountMatches - 2))"
  shows "Balance (extractTransactionFromLine line)
           = Some (trim (amountMatches ! (length amountMatches - 1)))
       \<and> (includesStr amount ''-'' \<longrightarrow>
            Debit (extractTransactionFromLine line) = Some (replaceFirst amount ''-'' [])
            \<and> CHR ''-'' \<notin> set (replaceFirst amount ''-'' [])
            \<and> Credit (extractTransactionFromLine line) = None)
       \<and> (\<not> includesStr amount ''-''
            \<and> \<not> includesStr (toLowerCase (snd (extractDate line))) ''debit'' \<longrightarrow>
            Credit (extractTransactionFromLine line) = Some amount
            \<and> Debit (extractTransactionFromLine line) = None)
       \<and> (\<not> includesStr amount ''-''
            \<and> includesStr (toLowerCase (snd (extractDate line))) ''debit'' \<longrightarrow>
            Debit (extractTransactionFromLine line) = Some amount
            \<and> Credit (extractTransactionFromLine line) = None)"
proof -
  have n: "1 \<le> length amountMatches" using assms(2) by simp
  have "CHR ''-'' \<notin> set (replaceFirst
          (trim (matchAll (Grp amountPattern) (snd (extractDate line))
                 ! (length (matchAll (Grp amountPattern) (snd (extractDate line))) - 2))) ''-'' [])"
    by (rule amount_match_stripped) (use assms(1,2) in simp)
  then have strip: "CHR ''-'' \<notin> set (replaceFirst amount ''-'' [])"
    using assms(1,3) by simp
  show ?thesis
    using n assms(2) strip extractDate_fields [of line]
    by (simp add: extractTransactionFromLine_fields extractAmounts_def classifyAmount_def
        Let_def assms(1) [symmetric] assms(3) [symmetric] replaceFirst_absent)
qed

theorem extractTransactionFromLine_debit_sign_witness:
  "matchAll (Grp amountPattern) (snd (extractDate ''15/04/2024 REFUND -500.00 86040.65''))
     = ['' -500.00'', '' 86040.65'']
   \<and> includesStr ''-500.00'' ''-''
   \<and> Balance (extractTransactionFromLine ''15/04/2024 REFUND -500.00 86040.65'') = Some ''86040.65''
   \<and> Debit (extractTransactionFromLine ''15/04/2024 REFUND -500.00 86040.65'') = Some ''500.00''
   \<and> Credit (extractTransactionFromLine ''15/04/2024 REFUND -500.00 86040.65'') = None"
proof -
  let ?line = "''15/04/2024 REFUND -500.00 86040.65''"
  let ?ms = "['' -500.00'', '' 86040.65'']"
  have h1: "?ms = matchAll (Grp amountPattern) (snd (extractDate ?line))" by code_simp
  have h2: "2 \<le> length ?ms" by simp
  have h3: "''-500.00'' = trim (?ms ! (length ?ms - 2))" by code_simp
  have h4: "includesStr ''-500.00'' ''-''" by code_simp
  have h5: "replaceFirst ''-500.00'' ''-'' [] = ''500.00''" by code_simp
  have h6: "trim (?ms ! (length ?ms - 1)) = ''86040.65''" by code_simp
  show ?thesis
    using extractTransactionFromLine_debit_sign [OF h1 h2 h3] h1 h4 h5 h6 by simp
qed

section \<open>Properties of the manual CSV entry\<close>

text \<open>
  C9, as the code has it. When \<open>JSON.parse\<close> rejects the sample input (a header row
  \<open>Date,Description,Debit,Credit,Balance\<close> and the data line of 14/04/2024), the cells are
  assigned to the headers by position: the third cell, which is empty, is the Debit, and the
  fourth, \<open>50000.00\<close>, is the Credit; the Balance is \<open>86540.65\<close>.
\<close>

theorem handleSubmit_sample:
  "J csvSample = None \<Longrightarrow>
   handleSubmit J csvSample =
     SubmitRows [[(''Date'', ''14/04/2024''),
                  (''Description'', ''FT/0000885394301/15894005677/CR CARD PYMT''),
                  (''Debit'', []), (''Credit'', ''50000.00''), (''Balance'', ''86540.65'')]]"
proof -
  assume j: "J csvSample = None"
  have t: "trim csvSample \<noteq> []" by code_simp
  have p: "parseCsv csvSample =
     Inr [[(''Date'', ''14/04/2024''),
                  (''Description'', ''FT/0000885394301/15894005677/CR CARD PYMT''),
                  (''Debit'', []), (''Credit'', ''50000.00''), (''Balance'', ''86540.65'')]]"
    by code_simp
  show ?thesis using j t p by (simp add: handleSubmit_def)
qed

theorem handleSubmit_sample_witness:
  "handleSubmit (\<lambda>s. None :: unit jsonKind option) csvSample =
     SubmitRows [[(''Date'', ''14/04/2024''),
                  (''Description'', ''FT/0000885394301/15894005677/CR CARD PYMT''),
                  (''Debit'', []), (''Credit'', ''50000.00''), (''Balance'', ''86540.65'')]]"
  by (rule handleSubmit_sample) simp

text \<open>
  C9 as stated has an empty Credit. The header-driven mapping gives the Credit
  \<open>50000.00\<close>, not the empty string.
\<close>

theorem parseCsv_credit_counterexample:
  "parseCsv csvSample =
     Inr [[(''Date'', ''14/04/2024''),
                  (''Description'', ''FT/0000885394301/15894005677/CR CARD PYMT''),
                  (''Debit'', []), (''Credit'', ''50000.00''), (''Balance'', ''86540.65'')]]
   \<and> map_of [(''Date'', ''14/04/2024''),
              (''Description'', ''FT/0000885394301/15894005677/CR CARD PYMT''),
              (''Debit'', []), (''Credit'', ''50000.00''), (''Balance'', ''86540.65'')] ''Credit''
      \<noteq> Some []"
  by code_simp

section \<open>Properties of the text-layer backend\<close>

lemma pageLines_newline: "pageLines (CHR 0x0A # r) = pageLines r"
proof -
  have e: "pageLines [] = []" by code_simp
  show ?thesis using pageLines_append [of "[]" r] by (simp add: e)
qed

lemma pageLines_break: "pageLines (a @ pageBreak @ b) = pageLines a @ [''--- PAGE BREAK ---''] @ pageLines b"
proof -
  have m: "pageLines ''--- PAGE BREAK ---'' = [''--- PAGE BREAK ---'']" by code_simp
  have "a @ pageBreak @ b = a @ CHR 0x0A # (CHR 0x0A # (''--- PAGE BREAK ---'' @ CHR 0x0A # (CHR 0x0A # b)))"
    by (simp add: pageBreak_def)
  then have "pageLines (a @ pageBreak @ b) =
             pageLines (a @ CHR 0x0A # (CHR 0x0A # (''--- PAGE BREAK ---'' @ CHR 0x0A # (CHR 0x0A # b))))"
    by (rule arg_cong)
  also have "\<dots> = pageLines a @ pageLines (CHR 0x0A # (''--- PAGE BREAK ---'' @ CHR 0x0A # (CHR 0x0A # b)))"
    by (rule pageLines_append)
  also have "pageLines (CHR 0x0A # (''--- PAGE BREAK ---'' @ CHR 0x0A # (CHR 0x0A # b)))
             = pageLines (''--- PAGE BREAK ---'' @ CHR 0x0A # (CHR 0x0A # b))"
    by (rule pageLines_newline)
  also have "pageLines (''--- PAGE BREAK ---'' @ CHR 0x0A # (CHR 0x0A # b))
             = pageLines ''--- PAGE BREAK ---'' @ pageLines (CHR 0x0A # b)"
    by (rule pageLines_append)
  also have "pageLines (CHR 0x0A # b) = pageLines b"
    by (rule pageLines_newline)
  finally show ?thesis by (simp only: m)
qed

lemma pageLines_wholeText:
  "pageLines (concat (map (\<lambda>i. pageText d i @ pageBreak) js)) =
   concat (map (\<lambda>i. pageLines (pageText d i) @ [''--- PAGE BREAK ---'']) js)"
proof (induction js)
  case Nil
  have "pageLines [] = []" by code_simp
  then show ?case by simp
next
  case (Cons j js)
  have "pageLines (pageText d j @ pageBreak @ concat (map (\<lambda>i. pageText d i @ pageBreak) js)) =
        pageLines (pageText d j) @ [''--- PAGE BREAK ---'']
          @ pageLines (concat (map (\<lambda>i. pageText d i @ pageBreak) js))"
    by (rule pageLines_break)
  then show ?case using Cons by simp
qed

lemma candidates_wholeText:
  "filter isCandidate (pageLines (concat (map (\<lambda>i. pageText d i @ pageBreak) js))) =
   concat (map (\<lambda>i. filter isCandidate (pageLines (pageText d i))) js)"
proof -
  have m: "\<not> isCandidate ''--- PAGE BREAK ---''" by code_simp
  show ?thesis
    unfolding pageLines_wholeText by (induction js) (simp_all add: m)
qed

lemma no_data_no_candidates:
  "extractTableDataFromText t i = [] \<longleftrightarrow> filter isCandidate (pageLines t) = []"
  by (simp add: extractTableDataFromText_lines)

lemma fallback_empty:
  assumes "concat (map (\<lambda>i. extractTableDataFromText (pageText d i) i) js) = []"
  shows "extractTableDataFromText (concat (map (\<lambda>i. pageText d i @ pageBreak) js)) 1 = []"
proof -
  have "\<forall>i \<in> set js. filter isCandidate (pageLines (pageText d i)) = []"
    using assms by (simp add: no_data_no_candidates)
  then have "concat (map (\<lambda>i. filter isCandidate (pageLines (pageText d i))) js) = []"
    by simp
  then show ?thesis
    by (simp add: no_data_no_candidates candidates_wholeText)
qed

lemma await_never: "await never e s = s\<lparr>tick := tick s + 1, trace := trace s @ [e]\<rparr>"
  by (simp add: await_def never_def emit_def Let_def)

lemma stopped_updates:
  "stopped (s\<lparr>tick := k, trace := tr\<rparr>) = stopped s"
  "stopped (throttledProgressUpdate p s) = stopped s"
  "stopped (await never e s) = stopped s"
  by (simp_all add: stopped_def throttledProgressUpdate_def emit_def await_never)

lemma textLoop_step:
  "\<not> stopped s \<Longrightarrow> pageReadable d j \<Longrightarrow>
   textLoop never d n (j # js) acc s =
     textLoop never d n js (acc @ extractTableDataFromText (pageText d j) j)
       (s\<lparr>tick := tick s + 2, trace := trace s @ pageLoopTrace n j\<rparr>)"
  by (simp add: Let_def await_never throttledProgressUpdate_def emit_def pageLoopTrace_def)

lemma textLoop_never:
  "\<not> stopped s \<Longrightarrow> \<forall>i \<in> set js. pageReadable d i \<Longrightarrow>
   textLoop never d n js acc s =
     (Next (acc @ concat (map (\<lambda>i. extractTableDataFromText (pageText d i) i) js)),
      s\<lparr>tick := tick s + 2 * length js, trace := trace s @ concat (map (pageLoopTrace n) js)\<rparr>)"
proof (induction js arbitrary: acc s)
  case Nil
  show ?case by simp
next
  case (Cons j js)
  let ?s' = "s\<lparr>tick := tick s + 2, trace := trace s @ pageLoopTrace n j\<rparr>"
  have ns: "\<not> stopped ?s'" using Cons.prems(1) by (simp add: stopped_updates)
  have r: "\<forall>i \<in> set js. pageReadable d i" using Cons.prems(2) by simp
  have "textLoop never d n (j # js) acc s =
        textLoop never d n js (acc @ extractTableDataFromText (pageText d j) j) ?s'"
    by (rule textLoop_step) (use Cons.prems in simp_all)
  also have "\<dots> = (Next ((acc @ extractTableDataFromText (pageText d j) j)
                        @ concat (map (\<lambda>i. extractTableDataFromText (pageText d i) i) js)),
                   ?s'\<lparr>tick := tick ?s' + 2 * length js,
                        trace := trace ?s' @ concat (map (pageLoopTrace n) js)\<rparr>)"
    by (rule Cons.IH [OF ns r])
  also have "\<dots> = (Next (acc @ concat (map (\<lambda>i. extractTableDataFromText (pageText d i) i) (j # js))),
      s\<lparr>tick := tick s + 2 * length (j # js),
        trace := trace s @ concat (map (pageLoopTrace n) (j # js))\<rparr>)"
    by simp
  finally show ?case .
qed

lemma allTextLoop_step:
  "pageReadable d j \<Longrightarrow>
   allTextLoop never d (j # js) acc s =
     allTextLoop never d js (acc @ pageText d j @ pageBreak)
       (s\<lparr>tick := tick s + 2, trace := trace s @ [GetPage j, GetTextContent j]\<rparr>)"
  by (simp add: Let_def await_never)

lemma allTextLoop_never:
  "\<forall>i \<in> set js. pageReadable d i \<Longrightarrow>
   allTextLoop never d js acc s =
     (Next (acc @ concat (map (\<lambda>i. pageText d i @ pageBreak) js)),
      s\<lparr>tick := tick s + 2 * length js,
        trace := trace s @ concat (map (\<lambda>i. [GetPage i, GetTextContent i]) js)\<rparr>)"
proof (induction js arbitrary: acc s)
  case Nil
  show ?case by simp
next
  case (Cons j js)
  let ?s' = "s\<lparr>tick := tick s + 2, trace := trace s @ [GetPage j, GetTextContent j]\<rparr>"
  have r: "\<forall>i \<in> set js. pageReadable d i" using Cons.prems by simp
  have "allTextLoop never d (j # js) acc s =
        allTextLoop never d js (acc @ pageText d j @ pageBreak) ?s'"
    by (rule allTextLoop_step) (use Cons.prems in simp)
  also have "\<dots> = (Next ((acc @ pageText d j @ pageBreak)
                        @ concat (map (\<lambda>i. pageText d i @ pageBreak) js)),
                   ?s'\<lparr>tick := tick ?s' + 2 * length js,
                        trace := trace ?s' @ concat (map (\<lambda>i. [GetPage i, GetTextContent i]) js)\<rparr>)"
    by (rule Cons.IH [OF r])
  also have "\<dots> = (Next (acc @ concat (map (\<lambda>i. pageText d i @ pageBreak) (j # js))),
      s\<lparr>tick := tick s + 2 * length (j # js),
        trace := trace s @ concat (map (\<lambda>i. [GetPage i, GetTextContent i]) (j # js))\<rparr>)"
    by simp
  finally show ?case .
qed

lemma extractAllText_never:
  "\<forall>i \<in> set [1..<Suc (pageCap d)]. pageReadable d i \<Longrightarrow>
   extractAllText never d (pageCap d) s =
     (Next (wholeText d),
      s\<lparr>tick := tick s + 2 * pageCap d,
        trace := trace s @ concat (map (\<lambda>i. [GetPage i, GetTextContent i]) [1..<Suc (pageCap d)])\<rparr>)"
proof -
  assume r: "\<forall>i \<in> set [1..<Suc (pageCap d)]. pageReadable d i"
  have c: "min (length (pages d)) (pageCap d) = pageCap d" by (simp add: pageCap_def)
  show ?thesis
    unfolding extractAllText_def Let_def c
    by (simp only: allTextLoop_never [OF r]) (simp add: wholeText_def)
qed

lemma textBody_never_empty:
  assumes r: "\<forall>i \<in> set [1..<Suc (pageCap d)]. pageReadable d i"
    and e: "perPageData d = []"
  shows "textBody D never d initSt =
     (Raised, initSt\<lparr>tick := 4 * pageCap d,
                     trace := concat (map (pageLoopTrace (pageCap d)) [1..<Suc (pageCap d)])
                       @ [ProgressUpdate 80, ProgressUpdate 85]
                       @ concat (map (\<lambda>i. [GetPage i, GetTextContent i]) [1..<Suc (pageCap d)])\<rparr>)"
proof -
  have i: "\<not> stopped initSt" by (simp add: stopped_def initSt_def)
  let ?s1 = "initSt\<lparr>tick := tick initSt + 2 * length [1..<Suc (pageCap d)],
                trace := trace initSt @ concat (map (pageLoopTrace (pageCap d)) [1..<Suc (pageCap d)])\<rparr>"
  have loop: "textLoop never d (pageCap d) [1..<Suc (pageCap d)] [] initSt =
        (Next ([] @ concat (map (\<lambda>i. extractTableDataFromText (pageText d i) i) [1..<Suc (pageCap d)])), ?s1)"
    by (rule textLoop_never [OF i r])
  have data: "concat (map (\<lambda>i. extractTableDataFromText (pageText d i) i) [1..<Suc (pageCap d)]) = []"
    using e by (simp add: perPageData_def)
  have "extractTableDataFromText (wholeText d) 1 = []"
    unfolding wholeText_def by (rule fallback_empty [OF data])
  then have fb: "extractTableDataFromText (wholeText d) (Suc 0) = []" by simp
  have ns: "\<not> stopped ?s1" using i by (simp add: stopped_updates)
  have fall: "textFallback D never d (pageCap d) (throttledProgressUpdate 80 ?s1) =
     (Raised, initSt\<lparr>tick := 4 * pageCap d,
                     trace := concat (map (pageLoopTrace (pageCap d)) [1..<Suc (pageCap d)])
                       @ [ProgressUpdate 80, ProgressUpdate 85]
                       @ concat (map (\<lambda>i. [GetPage i, GetTextContent i]) [1..<Suc (pageCap d)])\<rparr>)"
    by (simp add: textFallback_def extractAllText_never [OF r] fb throttledProgressUpdate_def
        emit_def initSt_def del: upt_Suc)
  show ?thesis
    using ns fall loop data
    by (simp add: textBody_def Let_def pageCap_def [symmetric] del: upt_Suc)
qed

lemma no_callback_concat:
  "\<forall>x \<in> set xs. filter isCallback (f x) = [] \<Longrightarrow> filter isCallback (concat (map f xs)) = []"
  by (induction xs) simp_all

lemma processTextBasedPdf_never_empty:
  assumes r: "\<forall>i \<in> set [1..<Suc (pageCap d)]. pageReadable d i"
    and e: "perPageData d = []"
  shows "trace (processTextBasedPdf D never d initSt) =
           concat (map (pageLoopTrace (pageCap d)) [1..<Suc (pageCap d)])
           @ [ProgressUpdate 80, ProgressUpdate 85]
           @ concat (map (\<lambda>i. [GetPage i, GetTextContent i]) [1..<Suc (pageCap d)])
           @ [Error textErrorMessage]"
  unfolding processTextBasedPdf_def textBody_never_empty [OF r e]
  by (simp add: catchWith_def emit_def initSt_def del: upt_Suc)

lemma callbacks_never_empty:
  "filter isCallback
     (concat (map (pageLoopTrace n) js) @ [ProgressUpdate 80, ProgressUpdate 85]
      @ concat (map (\<lambda>i. [GetPage i, GetTextContent i]) js) @ [Error textErrorMessage])
   = [Error textErrorMessage]"
proof -
  have a: "filter isCallback (concat (map (pageLoopTrace n) js)) = []"
    by (rule no_callback_concat) (simp add: pageLoopTrace_def isCallback_def)
  have b: "filter isCallback (concat (map (\<lambda>i. [GetPage i, GetTextContent i]) js)) = []"
    by (rule no_callback_concat) (simp add: isCallback_def)
  show ?thesis by (simp add: a b) (simp add: isCallback_def)
qed

lemma ok_progress: "noEmptyData s \<Longrightarrow> noEmptyData (throttledProgressUpdate p s)"
  by (simp add: noEmptyData_def throttledProgressUpdate_def emit_def)

lemma ok_await: "e \<noteq> DataExtracted [] \<Longrightarrow> noEmptyData s \<Longrightarrow> noEmptyData (await sch e s)"
  by (simp add: noEmptyData_def await_def emit_def Let_def)

lemma ok_deliver: "xs \<noteq> [] \<Longrightarrow> noEmptyData s \<Longrightarrow> noEmptyData (deliver xs s)"
  by (simp add: noEmptyData_def deliver_def throttledProgressUpdate_def emit_def)

lemma ok_textLoop: "noEmptyData s \<Longrightarrow> noEmptyData (snd (textLoop sch d n js acc s))"
proof (induction js arbitrary: acc s)
  case Nil
  then show ?case by simp
next
  case (Cons j js)
  let ?s2 = "await sch (GetPage j) (throttledProgressUpdate (20 + (of_nat j - 1) * (60 / of_nat n)) s)"
  let ?s4 = "throttledProgressUpdate (20 + (of_nat j / of_nat n) * 60) (await sch (GetTextContent j) ?s2)"
  have s2: "noEmptyData ?s2"
    by (intro ok_await ok_progress Cons.prems) simp
  have s4: "noEmptyData ?s4"
    by (intro ok_await ok_progress s2) simp
  have ih: "noEmptyData (snd (textLoop sch d n js
              (acc @ extractTableDataFromText (pageText d j) j) ?s4))"
    by (rule Cons.IH [OF s4])
  consider "stopped s" | "\<not> stopped s" "\<not> pageReadable d j" | "\<not> stopped s" "pageReadable d j"
    by blast
  then show ?case
  proof cases
    case 1
    then show ?thesis using Cons.prems by simp
  next
    case 2
    then show ?thesis using s2 by (simp add: Let_def)
  next
    case 3
    then show ?thesis using ih by (simp add: Let_def)
  qed
qed

lemma ok_allTextLoop: "noEmptyData s \<Longrightarrow> noEmptyData (snd (allTextLoop sch d js acc s))"
proof (induction js arbitrary: acc s)
  case Nil
  then show ?case by simp
next
  case (Cons j js)
  let ?s1 = "await sch (GetPage j) s"
  let ?s2 = "await sch (GetTextContent j) ?s1"
  have s1: "noEmptyData ?s1"
    by (intro ok_await Cons.prems) simp
  have s2: "noEmptyData ?s2"
    by (intro ok_await s1) simp
  have ih: "noEmptyData (snd (allTextLoop sch d js (acc @ pageText d j @ pageBreak) ?s2))"
    by (rule Cons.IH [OF s2])
  show ?case
  proof (cases "pageReadable d j")
    case True
    then show ?thesis using ih by (simp add: Let_def)
  next
    case False
    then show ?thesis using s1 by (simp add: Let_def)
  qed
qed

lemma sortBy_nonempty: "xs \<noteq> [] \<Longrightarrow> sortBy cmp xs \<noteq> []"
  using mset_sortBy [of cmp xs] by (metis mset_zero_iff)

lemma removeDuplicateTransactions_nonempty:
  "xs \<noteq> [] \<Longrightarrow> removeDuplicateTransactions xs \<noteq> []"
  using keys_removeDuplicateTransactions [of xs] by (cases xs) auto

lemma ok_textFallback:
  assumes "noEmptyData s"
  shows "noEmptyData (snd (textFallback D sch d n s))"
proof -
  obtain r s1 where eq: "extractAllText sch d n (throttledProgressUpdate 85 s) = (r, s1)"
    by (cases "extractAllText sch d n (throttledProgressUpdate 85 s)") blast
  have "noEmptyData (snd (extractAllText sch d n (throttledProgressUpdate 85 s)))"
    unfolding extractAllText_def Let_def by (intro ok_allTextLoop ok_progress assms)
  then have s1: "noEmptyData s1" unfolding eq by simp
  show ?thesis
  proof (cases r)
    case Returned
    then show ?thesis using s1 eq by (simp add: textFallback_def)
  next
    case Raised
    then show ?thesis using s1 eq by (simp add: textFallback_def)
  next
    case (Next allText)
    show ?thesis
    proof (cases "extractTableDataFromText allText 1 = []")
      case True
      then show ?thesis using s1 Next eq by (simp add: textFallback_def)
    next
      case False
      then have "sortBy (compareNaive D) (extractTableDataFromText allText 1) \<noteq> []"
        by (rule sortBy_nonempty)
      then have "noEmptyData (deliver (sortBy (compareNaive D)
              (extractTableDataFromText allText 1)) (throttledProgressUpdate 95 s1))"
        by (intro ok_deliver ok_progress s1)
      then show ?thesis using False Next eq by (simp add: textFallback_def Let_def)
    qed
  qed
qed

lemma ok_textBody:
  assumes "noEmptyData s"
  shows "noEmptyData (snd (textBody D sch d s))"
proof -
  let ?n = "min (length (pages d)) 20"
  obtain r s1 where eq: "textLoop sch d ?n [1..<Suc ?n] [] s = (r, s1)"
    by (cases "textLoop sch d ?n [1..<Suc ?n] [] s") blast
  have "noEmptyData (snd (textLoop sch d ?n [1..<Suc ?n] [] s))"
    by (rule ok_textLoop [OF assms])
  then have s1: "noEmptyData s1" unfolding eq by simp
  have s2: "noEmptyData (throttledProgressUpdate 80 s1)"
    by (rule ok_progress [OF s1])
  show ?thesis
  proof (cases r)
    case Returned
    then show ?thesis using s1 eq by (simp add: textBody_def Let_def del: upt_Suc)
  next
    case Raised
    then show ?thesis using s1 eq by (simp add: textBody_def Let_def del: upt_Suc)
  next
    case (Next allPagesData)
    show ?thesis
    proof (cases "allPagesData = []")
      case True
      have "noEmptyData (snd (textFallback D sch d ?n (throttledProgressUpdate 80 s1)))"
        by (rule ok_textFallback [OF s2])
      then show ?thesis using True Next s1 eq by (simp add: textBody_def Let_def del: upt_Suc)
    next
      case False
      then have "removeDuplicateTransactions allPagesData \<noteq> []"
        by (rule removeDuplicateTransactions_nonempty)
      then have ne: "sortTransactionsByDate D (removeDuplicateTransactions allPagesData) \<noteq> []"
        unfolding sortTransactionsByDate_def by (rule sortBy_nonempty)
      have "noEmptyData (deliver
              (sortTransactionsByDate D (removeDuplicateTransactions allPagesData))
              (throttledProgressUpdate 95 (throttledProgressUpdate 90 (throttledProgressUpdate 80 s1))))"
        by (intro ok_deliver ok_progress s1 ne)
      then show ?thesis using False Next s1 s2 eq by (simp add: textBody_def Let_def del: upt_Suc)
    qed
  qed
qed

lemma ok_processTextBasedPdf: "noEmptyData (processTextBasedPdf D sch d initSt)"
proof -
  have i: "noEmptyData initSt" by (simp add: noEmptyData_def initSt_def)
  have "noEmptyData (snd (textBody D sch d initSt))"
    by (rule ok_textBody [OF i])
  then show ?thesis
    by (simp add: noEmptyData_def processTextBasedPdf_def catchWith_def emit_def
        split: flow.splits)
qed

text \<open>
  C7. No run of the text-layer backend, whatever the document and whenever it is cancelled,
  calls \<open>onDataExtracted\<close> with an empty list. When every page up to the cap of 20 can be
  read, the page loop accumulates no record, and the run is neither cancelled nor timed
  out, the backend reads every page a second time, joins the page texts with the
  page-break marker and parses that text as page 1; the marker lines are dropped, so this
  gives no record either, and the run ends with one call of \<open>onError\<close> and no call of
  \<open>onDataExtracted\<close>.
\<close>

theorem processTextBasedPdf_empty_is_error:
  "DataExtracted [] \<notin> set (trace (processTextBasedPdf D sch d initSt))
   \<and> ((\<forall>i \<in> set [1..<Suc (pageCap d)]. pageReadable d i) \<and> perPageData d = [] \<longrightarrow>
        fst (extractAllText never d (pageCap d) s) = Next (wholeText d)
        \<and> extractTableDataFromText (wholeText d) 1 = []
        \<and> trace (processTextBasedPdf D never d initSt) =
            concat (map (pageLoopTrace (pageCap d)) [1..<Suc (pageCap d)])
            @ [ProgressUpdate 80, ProgressUpdate 85]
            @ concat (map (\<lambda>i. [GetPage i, GetTextContent i]) [1..<Suc (pageCap d)])
            @ [Error textErrorMessage]
        \<and> filter isCallback (trace (processTextBasedPdf D never d initSt))
            = [Error textErrorMessage])"
proof -
  have "fst (extractAllText never d (pageCap d) s) = Next (wholeText d)
        \<and> extractTableDataFromText (wholeText d) 1 = []
        \<and> trace (processTextBasedPdf D never d initSt) =
            concat (map (pageLoopTrace (pageCap d)) [1..<Suc (pageCap d)])
            @ [ProgressUpdate 80, ProgressUpdate 85]
            @ concat (map (\<lambda>i. [GetPage i, GetTextContent i]) [1..<Suc (pageCap d)])
            @ [Error textErrorMessage]
        \<and> filter isCallback (trace (processTextBasedPdf D never d initSt))
            = [Error textErrorMessage]"
    if r: "\<forall>i \<in> set [1..<Suc (pageCap d)]. pageReadable d i" and e: "perPageData d = []"
  proof -
    have a: "fst (extractAllText never d (pageCap d) s) = Next (wholeText d)"
      by (simp only: extractAllText_never [OF r] fst_conv)
    have "concat (map (\<lambda>i. extractTableDataFromText (pageText d i) i) [1..<Suc (pageCap d)]) = []"
      using e by (simp only: perPageData_def)
    then have b: "extractTableDataFromText (wholeText d) 1 = []"
      unfolding wholeText_def by (rule fallback_empty)
    have c: "trace (processTextBasedPdf D never d initSt) =
            concat (map (pageLoopTrace (pageCap d)) [1..<Suc (pageCap d)])
            @ [ProgressUpdate 80, ProgressUpdate 85]
            @ concat (map (\<lambda>i. [GetPage i, GetTextContent i]) [1..<Suc (pageCap d)])
            @ [Error textErrorMessage]"
      by (rule processTextBasedPdf_never_empty [OF r e])
    have d: "filter isCallback (trace (processTextBasedPdf D never d initSt))
            = [Error textErrorMessage]"
      unfolding c by (rule callbacks_never_empty)
    show ?thesis using a b c d by blast
  qed
  then show ?thesis using ok_processTextBasedPdf [of D sch d] unfolding noEmptyData_def by blast
qed

theorem processTextBasedPdf_empty_is_error_witness:
  "pageCap (tenPages\<lparr>pages := [Some [''Statement'', ''of account''],
                                 Some [''no rows'', ''here 12.00'']]\<rparr>) = 2
   \<and> pageReadable (tenPages\<lparr>pages := [Some [''Statement'', ''of account''],
                                        Some [''no rows'', ''here 12.00'']]\<rparr>) 1
   \<and> pageReadable (tenPages\<lparr>pages := [Some [''Statement'', ''of account''],
                                        Some [''no rows'', ''here 12.00'']]\<rparr>) 2
   \<and> perPageData (tenPages\<lparr>pages := [Some [''Statement'', ''of account''],
                                      Some [''no rows'', ''here 12.00'']]\<rparr>) = []
   \<and> filter isCallback
        (trace (processTextBasedPdf isoDate never
                 (tenPages\<lparr>pages := [Some [''Statement'', ''of account''],
                                      Some [''no rows'', ''here 12.00'']]\<rparr>) initSt))
      = [Error textErrorMessage]"
proof -
  let ?d = "tenPages\<lparr>pages := [Some [''Statement'', ''of account''],
                               Some [''no rows'', ''here 12.00'']]\<rparr>"
  have c: "pageCap ?d = 2 \<and> pageReadable ?d 1 \<and> pageReadable ?d 2 \<and> perPageData ?d = []"
    by code_simp
  have h: "(\<forall>i \<in> set [1..<Suc (pageCap ?d)]. pageReadable ?d i) \<and> perPageData ?d = []"
    by code_simp
  show ?thesis
    using processTextBasedPdf_empty_is_error [of isoDate never ?d initSt] c h by blast
qed

section \<open>Cancellation in the OCR backend\<close>

text \<open>
  C6 at a concrete run. The document has ten pages. The awaits of the run are counted:
  two for each page of phase 1 (\<open>getPage\<close>, \<open>render\<close>), the creation of the worker is
  the 21st, and the recognition of image 3 is the 24th. When the caller cancels during
  the 6th await (page 3 is being rendered), page 4 is not started and nothing is delivered.
  When the caller cancels during the 24th await (image 3 is being recognized), the loop of
  \<open>processImagesWithOcr\<close>, which has no cancellation check, still recognizes the
  images 4 to 10; after that no progress is reported and nothing is delivered.
\<close>

theorem processScannedPdf_cancel_runs:
  "trace (processScannedPdf isoDate \<lparr>cleanupAt = Some 6, timeoutAt = None\<rparr> tenPages initSt) =
     [ProgressUpdate 25,
      ProgressUpdate 25, GetPage 1, Render 1, ProgressUpdate 27,
      ProgressUpdate 27, GetPage 2, Render 2, ProgressUpdate 29,
      ProgressUpdate 29, GetPage 3, Render 3, ProgressUpdate 31]
   \<and> drop 41 (trace (processScannedPdf isoDate \<lparr>cleanupAt = Some 24, timeoutAt = None\<rparr>
                      tenPages initSt)) =
     [ProgressUpdate 45, CreateWorker,
      Recognize 1, ProgressUpdate 48, Recognize 2, ProgressUpdate 52, Recognize 3,
      Recognize 4, Recognize 5, Recognize 6, Recognize 7, Recognize 8, Recognize 9,
      Recognize 10, Terminate]
   \<and> filter isCallback
        (trace (processScannedPdf isoDate \<lparr>cleanupAt = Some 24, timeoutAt = None\<rparr>
                  tenPages initSt)) = []"
proof -
  have u: "[1..<Suc 10] = [1, 2, 3, 4, 5, 6, 7, 8, 9, 10]" by code_simp
  have f: "\<lfloor>7 / 2 :: rat\<rfloor> = 3" by code_simp
  show ?thesis
    using u f
    by (simp add: processScannedPdf_def scannedBody_def catchWith_def processImagesWithOcr_def
        progressCallback_def throttledProgressUpdate_def await_def emit_def stopped_def
        initSt_def tenPages_def pageReadable_def deliver_def Let_def isCallback_def
        del: upt_Suc cong: let_weak_cong)
qed

theorem processScannedPdf_cancel_runs_witness:
  "Recognize 4 \<in> set (drop 41 (trace (processScannedPdf isoDate
      \<lparr>cleanupAt = Some 24, timeoutAt = None\<rparr> tenPages initSt)))"
  using processScannedPdf_cancel_runs by simp

section \<open>The timers under steady progress\<close>

text \<open>
  C8 at a concrete run. Processing starts at time 1000000 and reports progress every ten
  seconds. After 11 reports the 3-minute timer of the converter has been moved with each
  report and stands 180 seconds after the last one, while the 2-minute timer of
  \<open>processPdf\<close> still stands at its first value, 120 seconds after the start, and no
  error is set. At the 120th second that timer fires: the run has failed with its message
  although it never stalled.
\<close>

theorem timers_steady_progress:
  "outerTimer (runProgress 1000000
          [(1010000, 50), (1020000, 50), (1030000, 50), (1040000, 50), (1050000, 50),
           (1060000, 50), (1070000, 50), (1080000, 50), (1090000, 50), (1100000, 50),
           (1110000, 50)]) = Some 1290000
   \<and> innerTimer (runProgress 1000000
          [(1010000, 50), (1020000, 50), (1030000, 50), (1040000, 50), (1050000, 50),
           (1060000, 50), (1070000, 50), (1080000, 50), (1090000, 50), (1100000, 50),
           (1110000, 50)]) = Some 1120000
   \<and> errorMsg (runProgress 1000000
          [(1010000, 50), (1020000, 50), (1030000, 50), (1040000, 50), (1050000, 50),
           (1060000, 50), (1070000, 50), (1080000, 50), (1090000, 50), (1100000, 50),
           (1110000, 50)]) = None
   \<and> errorMsg (runProgress 1000000
          [(1010000, 50), (1020000, 50), (1030000, 50), (1040000, 50), (1050000, 50),
           (1060000, 50), (1070000, 50), (1080000, 50), (1090000, 50), (1100000, 50),
           (1110000, 50), (1120000, 50), (1130000, 50)]) = Some timeoutMessage
   \<and> \<not> isProcessing (runProgress 1000000
          [(1010000, 50), (1020000, 50), (1030000, 50), (1040000, 50), (1050000, 50),
           (1060000, 50), (1070000, 50), (1080000, 50), (1090000, 50), (1100000, 50),
           (1110000, 50), (1120000, 50), (1130000, 50)])"
  by (simp add: runProgress_def progressEvent_def elapseTo_def progressAt_def
      handleProgressUpdate_def startProcessing_def fireInner_def fireOuter_def
      handleExtractionError_def stopProcessing_def Let_def cong: let_weak_cong)

theorem timers_steady_progress_witness:
  "errorMsg (runProgress 1000000
          [(1010000, 50), (1020000, 50), (1030000, 50), (1040000, 50), (1050000, 50),
           (1060000, 50), (1070000, 50), (1080000, 50), (1090000, 50), (1100000, 50),
           (1110000, 50), (1120000, 50), (1130000, 50)]) \<noteq> None"
  using timers_steady_progress by simp

end
